(* ===== verification/Prelude.thy ===== *)
theory Prelude
  imports Main "HOL-Library.Sublist"
begin

text \<open>
  Shared vocabulary of the development. The single table of the service,
  \<open>todo(id, content)\<close>, is modelled as the list of its rows in the storage
  engine's scan order; a row is the pair of its \<open>id\<close> and \<open>content\<close> columns.
  The lemmas below relate the three list operations the table uses (finding
  the row of an id, removing it, rewriting it) to the map abstraction
  \<^term>\<open>map_of\<close>; they are collected in \<open>row_simps\<close> so that the component
  proofs can use them with \<open>simp add: row_simps\<close>. The PostgreSQL column
  type of \<open>id\<close> is \<open>integer\<close> (32-bit signed), whose range is \<^term>\<open>in_int4\<close>.
\<close>

named_theorems row_simps "facts relating the row lists of the table to map_of"

type_synonym row = "int \<times> string"

type_synonym table_map = "int \<rightharpoonup> string"

definition int4_min :: int where
  "int4_min = - 2147483648"

definition int4_max :: int where
  "int4_max = 2147483647"

definition in_int4 :: "int \<Rightarrow> bool" where
  "in_int4 i \<longleftrightarrow> int4_min \<le> i \<and> i \<le> int4_max"

abbreviation row_ids :: "row list \<Rightarrow> int list" where
  "row_ids rs \<equiv> map fst rs"

subsection \<open>Rows and the map abstraction\<close>

lemma find_row_map_of [row_simps]:
  "find (\<lambda>r. fst r = i) rs = (case map_of rs i of None \<Rightarrow> None | Some c \<Rightarrow> Some (i, c))"
  by (induction rs) auto

lemma map_of_filter_id [row_simps]:
  "map_of (filter (\<lambda>r. fst r \<noteq> i) rs) = (map_of rs)(i := None)"
  by (induction rs) (auto simp: fun_eq_iff)

lemma map_of_snoc_row [row_simps]:
  "map_of (rs @ [(n, c)]) = (if n \<in> fst ` set rs then map_of rs else (map_of rs)(n \<mapsto> c))"
  by (induction rs) (auto simp del: map_of_append simp: fun_eq_iff)

lemma map_of_snoc_new [row_simps]:
  "n \<notin> fst ` set rs \<Longrightarrow> map_of (rs @ [(n, c)]) n = Some c"
  by (induction rs) auto

lemma map_of_rewrite_row [row_simps]:
  assumes "distinct (row_ids rs)" and "j = i \<or> j \<notin> set (row_ids rs)"
  shows "map_of (map (\<lambda>r. if fst r = i then (j, c) else r) rs) =
    (if i \<in> set (row_ids rs) then ((map_of rs)(i := None))(j \<mapsto> c) else map_of rs)"
  using assms
proof (induction rs)
  case Nil
  then show ?case by simp
next
  case (Cons r rs)
  obtain k d where r: "r = (k, d)" by (cases r)
  show ?case
  proof (cases "k = i")
    case True
    with Cons.prems r have notin: "i \<notin> set (row_ids rs)" by auto
    then have "map (\<lambda>r. if fst r = i then (j, c) else r) rs = rs"
      by (induction rs) auto
    with True r notin show ?thesis by (auto simp: fun_eq_iff map_of_eq_None_iff)
  next
    case False
    have prem: "distinct (row_ids rs)" "j = i \<or> j \<notin> set (row_ids rs)"
      using Cons.prems r by auto
    have "j \<noteq> k" using Cons.prems r False by auto
    with Cons.IH [OF prem] False show ?thesis by (auto simp: r fun_eq_iff)
  qed
qed

lemma ids_rewrite_row [row_simps]:
  "row_ids (map (\<lambda>r. if fst r = i then (j, c) else r) rs) =
    map (\<lambda>k. if k = i then j else k) (row_ids rs)"
  by (induction rs) auto

lemma distinct_rewrite_id:
  assumes "distinct xs" and "j = i \<or> j \<notin> set xs"
  shows "distinct (map (\<lambda>k. if k = i then j else k) xs)"
  using assms
proof (induction xs)
  case Nil
  then show ?case by simp
next
  case (Cons x xs)
  then have "j = i \<or> j \<notin> set xs" by auto
  with Cons have IH: "distinct (map (\<lambda>k. if k = i then j else k) xs)" by simp
  have "(if x = i then j else x) \<notin> (\<lambda>k. if k = i then j else k) ` set xs"
    using Cons.prems by auto
  with IH show ?case by simp
qed

lemma distinct_ids_filter [row_simps]:
  "distinct (row_ids rs) \<Longrightarrow> distinct (row_ids (filter P rs))"
  by (simp add: distinct_map_filter)

lemma rewrite_row_absent [row_simps]:
  "i \<notin> fst ` set rs \<Longrightarrow> map (\<lambda>r. if fst r = i then x else r) rs = rs"
  by (induction rs) auto

lemma filter_row_absent [row_simps]:
  "i \<notin> fst ` set rs \<Longrightarrow> filter (\<lambda>r. fst r \<noteq> i) rs = rs"
  by (induction rs) auto

lemma set_ids_filter_id [row_simps]:
  "set (row_ids (filter (\<lambda>r. fst r \<noteq> i) rs)) = set (row_ids rs) - {i}"
  by auto

subsection \<open>Lists of per-request states\<close>

text \<open>Facts on updating one element of a list, used for the configurations of
  the concurrent server, where one request in flight takes a step.\<close>

lemma sum_list_map_update:
  "i < length xs \<Longrightarrow>
   sum_list (map f (xs[i := y])) + f (xs ! i) = sum_list (map f xs) + (f y :: nat)"
proof (induction xs arbitrary: i)
  case Nil
  then show ?case by simp
next
  case (Cons x xs)
  then show ?case by (cases i) auto
qed

lemma concat_map_update:
  "i < length xs \<Longrightarrow>
   concat (map f (xs[i := y])) =
     concat (map f (take i xs)) @ f y @ concat (map f (drop (Suc i) xs))"
  by (simp add: upd_conv_take_nth_drop)

lemma concat_map_nth:
  "i < length xs \<Longrightarrow>
   concat (map f xs) = concat (map f (take i xs)) @ f (xs ! i) @ concat (map f (drop (Suc i) xs))"
  by (metis concat_map_update list_update_id)

lemma set_concat_map_update:
  "i < length xs \<Longrightarrow> set (concat (map f (xs[i := y]))) \<subseteq> set (concat (map f xs)) \<union> set (f y)"
  by (subst concat_map_update, assumption, subst (2) concat_map_nth, assumption) auto

lemma distinct_replace_middle:
  assumes "distinct (A @ X @ B)" and "distinct Y" and "set Y \<inter> set (A @ X @ B) \<subseteq> set X"
  shows "distinct (A @ Y @ B)"
proof -
  have "set Y \<inter> set A = {}" "set Y \<inter> set B = {}"
    using assms(1,3) by auto
  with assms(1,2) show ?thesis by auto
qed

lemma distinct_concat_map_update:
  assumes "i < length xs" and "distinct (concat (map f xs))" and "distinct (f y)"
    and "set (f y) \<inter> set (concat (map f xs)) \<subseteq> set (f (xs ! i))"
  shows "distinct (concat (map f (xs[i := y])))"
proof -
  let ?A = "concat (map f (take i xs))" and ?B = "concat (map f (drop (Suc i) xs))"
  have whole: "concat (map f xs) = ?A @ f (xs ! i) @ ?B"
    using assms(1) by (rule concat_map_nth)
  have "distinct (?A @ f (xs ! i) @ ?B)" using assms(2) whole by simp
  moreover note assms(3)
  moreover have "set (f y) \<inter> set (?A @ f (xs ! i) @ ?B) \<subseteq> set (f (xs ! i))"
    using assms(4) whole by simp
  ultimately have "distinct (?A @ f y @ ?B)" by (rule distinct_replace_middle)
  with assms(1) show ?thesis by (simp add: concat_map_update)
qed

lemma distinct_concat_map_lt:
  assumes "distinct (concat (map f xs))" and "i < j" and "j < length xs"
  shows "set (f (xs ! i)) \<inter> set (f (xs ! j)) = {}"
proof -
  have i: "i < length xs" using assms(2,3) by simp
  have "j - Suc i < length (drop (Suc i) xs)" using assms(2,3) by simp
  then have "drop (Suc i) xs ! (j - Suc i) \<in> set (drop (Suc i) xs)" by (rule nth_mem)
  moreover have "drop (Suc i) xs ! (j - Suc i) = xs ! j" using assms(2,3) by simp
  ultimately have "xs ! j \<in> set (drop (Suc i) xs)" by simp
  then have "set (f (xs ! j)) \<subseteq> set (concat (map f (drop (Suc i) xs)))" by auto
  moreover have "distinct (concat (map f (take i xs)) @ f (xs ! i) @ concat (map f (drop (Suc i) xs)))"
    using assms(1) concat_map_nth [OF i, of f] by simp
  ultimately show ?thesis by auto
qed

lemma distinct_concat_map_disjoint:
  "distinct (concat (map f xs)) \<Longrightarrow> i < length xs \<Longrightarrow> j < length xs \<Longrightarrow> i \<noteq> j \<Longrightarrow>
   set (f (xs ! i)) \<inter> set (f (xs ! j)) = {}"
  by (cases "i < j") (auto dest: distinct_concat_map_lt [of f xs i j] distinct_concat_map_lt [of f xs j i])

lemma distinct_prefix_update:
  assumes "i < length xs" and "distinct (S @ concat (map f xs))" and "distinct (f y)"
    and "set (f y) \<inter> set (S @ concat (map f xs)) \<subseteq> set (f (xs ! i))"
  shows "distinct (S @ concat (map f (xs[i := y])))"
proof -
  let ?A = "S @ concat (map f (take i xs))" and ?B = "concat (map f (drop (Suc i) xs))"
  have "S @ concat (map f xs) = ?A @ f (xs ! i) @ ?B"
    using concat_map_nth [OF assms(1), of f] by simp
  then have "distinct (?A @ f y @ ?B)"
    using assms(2-4) by (metis distinct_replace_middle)
  with assms(1) show ?thesis by (simp add: concat_map_update)
qed

definition remove_at :: "nat \<Rightarrow> 'a list \<Rightarrow> 'a list" where
  "remove_at i xs = take i xs @ drop (Suc i) xs"

lemma concat_map_remove_at:
  "concat (map f (remove_at i xs)) = concat (map f (take i xs)) @ concat (map f (drop (Suc i) xs))"
  by (simp add: remove_at_def)

lemma set_remove_at: "set (remove_at i xs) \<subseteq> set xs"
  by (auto simp: remove_at_def dest: in_set_takeD in_set_dropD)

text \<open>A segment that leaves the middle of a list and returns, shrunk, further
  to the front keeps the list distinct.\<close>

lemma distinct_move_segment:
  "distinct (A @ B @ F @ C) \<Longrightarrow> distinct N \<Longrightarrow> set N \<subseteq> set F \<Longrightarrow> distinct (A @ N @ B @ C)"
  by auto

end
