(* ===== verification/Py_Str.thy ===== *)
theory Py_Str
  imports Prelude
begin

text \<open>
  Python's \<open>str.replace(old, new)\<close> (all occurrences), which
  \<open>src/fastapi_todo/main.py\<close> applies to the database URL. CPython scans the
  string from the left and replaces non-overlapping occurrences; an empty
  \<open>old\<close> inserts \<open>new\<close> before every character and at the end. The scan is
  \<^term>\<open>py_replace_scan\<close>, a function whose termination measure is the length of
  the rest of the string. The scanning lemmas give the result on the URLs
  of \<open>Db_Config\<close>: a prefix that is an occurrence, and a rest without one.
\<close>

function py_replace_scan :: "string \<Rightarrow> string \<Rightarrow> string \<Rightarrow> string" where
  "py_replace_scan old new [] = []"
| "py_replace_scan old new (c # s) =
     (if old \<noteq> [] \<and> prefix old (c # s)
      then new @ py_replace_scan old new (drop (length old) (c # s))
      else c # py_replace_scan old new s)"
  by pat_completeness auto
termination
  by (relation "measure (\<lambda>(old, new, s). length s)") auto

definition py_replace :: "string \<Rightarrow> string \<Rightarrow> string \<Rightarrow> string" where
  "py_replace old new s =
     (if old = [] then new @ concat (map (\<lambda>c. c # new) s) else py_replace_scan old new s)"

subsection \<open>Scanning lemmas\<close>

lemma py_replace_scan_no_occurrence:
  "\<not> sublist old s \<Longrightarrow> py_replace_scan old new s = s"
  by (induction old new s rule: py_replace_scan.induct)
     (auto simp: sublist_Cons_right)

lemma py_replace_scan_prefix:
  "old \<noteq> [] \<Longrightarrow> py_replace_scan old new (old @ s) = new @ py_replace_scan old new s"
  by (cases old) simp_all

end
