(* ===== verification/Db_Config.thy ===== *)
theory Db_Config
  imports Py_Str
begin

text \<open>
  The module-level database configuration of \<open>src/fastapi_todo/main.py\<close>
  (lines 14--20): the connection string is the configured \<open>DATABASE_URL\<close>
  with every occurrence of \<open>postgresql\<close> replaced by
  \<open>postgresql+psycopg\<close> (Python's \<open>str.replace\<close>, theory \<open>Py_Str\<close>),
  and the engine is created from it with \<open>sslmode=require\<close> and a pool
  recycle period of 300 seconds. The URL itself comes from the
  \<open>settings\<close> module, which is not part of the sources; it is the parameter
  of \<^term>\<open>connection_string\<close>.
\<close>

definition connection_string :: "string \<Rightarrow> string" where
  "connection_string database_url =
     py_replace ''postgresql'' ''postgresql+psycopg'' database_url"

record engine_cfg =
  eng_url :: string
  eng_connect_args :: "(string \<times> string) list"
  eng_pool_recycle :: nat

definition create_engine :: "string \<Rightarrow> engine_cfg" where
  "create_engine database_url =
     \<lparr>eng_url = connection_string database_url,
      eng_connect_args = [(''sslmode'', ''require'')],
      eng_pool_recycle = 300\<rparr>"

lemma no_pg_after_colon:
  "\<not> sublist ''postgresql'' rest \<Longrightarrow> \<not> sublist ''postgresql'' (''://'' @ rest)"
  by (simp add: sublist_Cons_right)

lemma no_pg_after_psycopg:
  "\<not> sublist ''postgresql'' rest \<Longrightarrow> \<not> sublist ''postgresql'' (''+psycopg://'' @ rest)"
  by (simp add: sublist_Cons_right)

lemma connection_string_pg_prefix:
  "\<not> sublist ''postgresql'' rest \<Longrightarrow>
   connection_string (''postgresql://'' @ rest) = ''postgresql+psycopg://'' @ rest"
proof -
  assume rest: "\<not> sublist ''postgresql'' rest"
  have "py_replace_scan ''postgresql'' ''postgresql+psycopg'' (''postgresql'' @ ''://'' @ rest) =
        ''postgresql+psycopg'' @ py_replace_scan ''postgresql'' ''postgresql+psycopg'' (''://'' @ rest)"
    by (rule py_replace_scan_prefix) simp
  also have "py_replace_scan ''postgresql'' ''postgresql+psycopg'' (''://'' @ rest) = ''://'' @ rest"
    using no_pg_after_colon [OF rest] by (rule py_replace_scan_no_occurrence)
  finally show ?thesis by (simp add: connection_string_def py_replace_def)
qed

lemma connection_string_postgres_unchanged:
  "\<not> sublist ''postgresql'' rest \<Longrightarrow>
   connection_string (''postgres://'' @ rest) = ''postgres://'' @ rest"
proof -
  assume rest: "\<not> sublist ''postgresql'' rest"
  then have "\<not> sublist ''postgresql'' (''postgres://'' @ rest)"
    by (simp add: sublist_Cons_right)
  then have eq: "py_replace_scan ''postgresql'' ''postgresql+psycopg'' (''postgres://'' @ rest) =
      ''postgres://'' @ rest"
    by (rule py_replace_scan_no_occurrence)
  have ne: "''postgresql'' \<noteq> []" by simp
  show ?thesis
    unfolding connection_string_def py_replace_def if_not_P [OF ne] by (rule eq)
qed

text \<open>C15: a URL with the \<open>postgresql://\<close> scheme, and no further
  \<open>postgresql\<close> in it, becomes the same URL with the psycopg driver:
  \<open>postgresql+psycopg://\<close>; a URL with the \<open>postgres://\<close> scheme (the
  short form many hosting providers hand out) contains no \<open>postgresql\<close>
  and is passed to the engine unchanged, so the driver is not selected.\<close>

theorem connection_string_scheme:
  "\<not> sublist ''postgresql'' rest \<Longrightarrow>
   connection_string (''postgresql://'' @ rest) = ''postgresql+psycopg://'' @ rest \<and>
   connection_string (''postgres://'' @ rest) = ''postgres://'' @ rest"
  by (intro conjI connection_string_pg_prefix connection_string_postgres_unchanged)

theorem connection_string_scheme_witness:
  "connection_string (''postgresql://u:pw@db.example.com:5432/todos'') =
   ''postgresql+psycopg://u:pw@db.example.com:5432/todos'' \<and>
   connection_string (''postgres://u:pw@db.example.com:5432/todos'') =
   ''postgres://u:pw@db.example.com:5432/todos''"
proof -
  have "\<not> sublist ''postgresql'' ''u:pw@db.example.com:5432/todos''"
    by (simp add: sublist_Cons_right)
  from connection_string_scheme [OF this] show ?thesis by simp
qed

text \<open>C16: the rewriting is not idempotent: a URL that already names the
  psycopg driver gets a second \<open>+psycopg\<close>, because \<open>str.replace\<close> matches
  the \<open>postgresql\<close> inside \<open>postgresql+psycopg\<close>.\<close>

theorem connection_string_not_idempotent:
  "\<not> sublist ''postgresql'' rest \<Longrightarrow>
   connection_string (''postgresql+psycopg://'' @ rest) = ''postgresql+psycopg+psycopg://'' @ rest"
proof -
  assume rest: "\<not> sublist ''postgresql'' rest"
  have "py_replace_scan ''postgresql'' ''postgresql+psycopg'' (''postgresql'' @ ''+psycopg://'' @ rest) =
        ''postgresql+psycopg'' @ py_replace_scan ''postgresql'' ''postgresql+psycopg'' (''+psycopg://'' @ rest)"
    by (rule py_replace_scan_prefix) simp
  also have "py_replace_scan ''postgresql'' ''postgresql+psycopg'' (''+psycopg://'' @ rest) = ''+psycopg://'' @ rest"
    using no_pg_after_psycopg [OF rest] by (rule py_replace_scan_no_occurrence)
  finally show ?thesis by (simp add: connection_string_def py_replace_def)
qed

theorem connection_string_not_idempotent_witness:
  "connection_string (connection_string ''postgresql://h/db'') = ''postgresql+psycopg+psycopg://h/db''"
proof -
  have h: "\<not> sublist ''postgresql'' ''h/db''" by (simp add: sublist_Cons_right)
  have "connection_string ''postgresql://h/db'' = ''postgresql+psycopg://h/db''"
    using connection_string_pg_prefix [OF h] by simp
  with connection_string_not_idempotent [OF h] show ?thesis by simp
qed


end
