(* ===== verification/Pg_Store.thy ===== *)
theory Pg_Store
  imports Prelude
begin

text \<open>
  The database behind the ORM: the table \<open>todo\<close> that
  \<open>SQLModel.metadata.create_all\<close> creates from the \<open>Todo\<close> class
  (\<open>id SERIAL PRIMARY KEY\<close>, \<open>content VARCHAR NOT NULL\<close> with a non-unique
  index), and the statements the ORM session sends to it. The database is
  not code of the repository; its behaviour here is the documented
  PostgreSQL behaviour the handlers rely on:
  \<^item> \<^term>\<open>table\<close> is \<open>None\<close> until the table is created, then the rows in
    scan order;
  \<^item> \<^term>\<open>next_id\<close> is the next value of the sequence \<open>todo_id_seq\<close>;
    \<open>nextval\<close> is not transactional (a rolled-back insert still consumes its
    value) and fails past the \<open>integer\<close> maximum;
  \<^item> an explicit \<open>id\<close> is stored as given (no \<open>nextval\<close>), checked against
    the \<open>integer\<close> range and the primary key;
  \<^item> psycopg refuses a text parameter holding a NUL character before
    sending the statement;
  \<^item> an ORM UPDATE that matches no row raises \<open>StaleDataError\<close>.
  Each failing statement leaves the table as it was.
\<close>

datatype db_error =
    UndefinedTable
  | UniqueViolation int
  | NotNullViolation
  | NumericOutOfRange int
  | SequenceExhausted
  | NulInText
  | StaleData

record db =
  table :: "row list option"
  next_id :: int

definition text_ok :: "string \<Rightarrow> bool" where
  "text_ok c \<longleftrightarrow> CHR 0x00 \<notin> set c"

definition create_all :: "db \<Rightarrow> db" where
  "create_all d = (case table d of None \<Rightarrow> \<lparr>table = Some [], next_id = 1\<rparr> | Some _ \<Rightarrow> d)"

definition pg_insert :: "int option \<Rightarrow> string \<Rightarrow> db \<Rightarrow> (db_error + int) \<times> db" where
  "pg_insert oid c d =
     (if \<not> text_ok c then (Inl NulInText, d)
      else case table d of
        None \<Rightarrow> (Inl UndefinedTable, d)
      | Some rs \<Rightarrow>
          (case oid of
            Some i \<Rightarrow>
              if \<not> in_int4 i then (Inl (NumericOutOfRange i), d)
              else if i \<in> set (row_ids rs) then (Inl (UniqueViolation i), d)
              else (Inr i, d\<lparr>table := Some (rs @ [(i, c)])\<rparr>)
          | None \<Rightarrow>
              if int4_max < next_id d then (Inl SequenceExhausted, d)
              else
                (let i = next_id d; d' = d\<lparr>next_id := i + 1\<rparr>
                 in if i \<in> set (row_ids rs) then (Inl (UniqueViolation i), d')
                    else (Inr i, d'\<lparr>table := Some (rs @ [(i, c)])\<rparr>))))"

definition pg_select_id :: "int \<Rightarrow> db \<Rightarrow> db_error + row option" where
  "pg_select_id i d =
     (case table d of None \<Rightarrow> Inl UndefinedTable | Some rs \<Rightarrow> Inr (find (\<lambda>r. fst r = i) rs))"

definition pg_select_all :: "db \<Rightarrow> db_error + row list" where
  "pg_select_all d = (case table d of None \<Rightarrow> Inl UndefinedTable | Some rs \<Rightarrow> Inr rs)"

definition pg_update :: "int \<Rightarrow> int option \<Rightarrow> string \<Rightarrow> db \<Rightarrow> db_error + int \<times> db" where
  "pg_update old new_id c d =
     (if \<not> text_ok c then Inl NulInText
      else case table d of
        None \<Rightarrow> Inl UndefinedTable
      | Some rs \<Rightarrow>
          (case new_id of
            None \<Rightarrow> if old \<in> set (row_ids rs) then Inl NotNullViolation else Inl StaleData
          | Some j \<Rightarrow>
              if \<not> in_int4 j then Inl (NumericOutOfRange j)
              else if old \<notin> set (row_ids rs) then Inl StaleData
              else if j \<noteq> old \<and> j \<in> set (row_ids rs) then Inl (UniqueViolation j)
              else Inr (j, d\<lparr>table := Some (map (\<lambda>r. if fst r = old then (j, c) else r) rs)\<rparr>)))"

definition pg_delete :: "int \<Rightarrow> db \<Rightarrow> db_error + db" where
  "pg_delete i d =
     (case table d of
       None \<Rightarrow> Inl UndefinedTable
     | Some rs \<Rightarrow> Inr (d\<lparr>table := Some (filter (\<lambda>r. fst r \<noteq> i) rs)\<rparr>))"

text \<open>The well-formedness of a database state: primary keys distinct and in
  the \<open>integer\<close> range, no NUL in stored text, and the sequence between its
  start value and one past the \<open>integer\<close> maximum.\<close>

definition wf_db :: "db \<Rightarrow> bool" where
  "wf_db d =
     (case table d of
       None \<Rightarrow> True
     | Some rs \<Rightarrow> distinct (row_ids rs) \<and> list_all in_int4 (row_ids rs) \<and>
         list_all (\<lambda>r. text_ok (snd r)) rs \<and> 1 \<le> next_id d \<and> next_id d \<le> int4_max + 1)"

definition tmap :: "db \<Rightarrow> table_map option" where
  "tmap d = map_option map_of (table d)"

subsection \<open>Statements: effect on the table and on the sequence\<close>

named_theorems pg_defs "definitions of the storage statements"
declare pg_insert_def [pg_defs] pg_select_id_def [pg_defs] pg_select_all_def [pg_defs]
  pg_update_def [pg_defs] pg_delete_def [pg_defs] create_all_def [pg_defs]

lemma pg_insert_Inl_table:
  "pg_insert oid c d = (Inl e, d') \<Longrightarrow> table d' = table d"
  by (auto simp: pg_insert_def Let_def split: if_splits option.splits)

lemma pg_insert_next_id_mono:
  "pg_insert oid c d = (r, d') \<Longrightarrow> next_id d \<le> next_id d'"
  by (auto simp: pg_insert_def Let_def split: if_splits option.splits)

lemma pg_insert_next_id_le: "next_id d \<le> next_id (snd (pg_insert oid c d))"
  using pg_insert_next_id_mono [of oid c d "fst (pg_insert oid c d)"] by simp

lemma pg_insert_Inr:
  assumes "pg_insert oid c d = (Inr i, d')"
  shows "\<exists>rs. table d = Some rs \<and> i \<notin> set (row_ids rs) \<and> text_ok c \<and>
    table d' = Some (rs @ [(i, c)]) \<and>
    (case oid of
      Some j \<Rightarrow> i = j \<and> in_int4 i \<and> next_id d' = next_id d
    | None \<Rightarrow> i = next_id d \<and> i \<le> int4_max \<and> next_id d' = i + 1)"
  using assms by (auto simp: pg_insert_def Let_def split: if_splits option.splits)

lemma pg_update_Inr:
  assumes "pg_update old n c d = Inr (j, d')"
  shows "\<exists>rs. table d = Some rs \<and> n = Some j \<and> old \<in> set (row_ids rs) \<and> in_int4 j \<and>
    text_ok c \<and> (j = old \<or> j \<notin> set (row_ids rs)) \<and> next_id d' = next_id d \<and>
    table d' = Some (map (\<lambda>r. if fst r = old then (j, c) else r) rs)"
  using assms by (auto simp: pg_update_def split: if_splits option.splits)

lemma pg_delete_Inr:
  "pg_delete i d = Inr d' \<Longrightarrow>
   \<exists>rs. table d = Some rs \<and> table d' = Some (filter (\<lambda>r. fst r \<noteq> i) rs) \<and> next_id d' = next_id d"
  by (auto simp: pg_delete_def split: option.splits)

lemma pg_update_null_id_fails:
  "table d = Some rs \<Longrightarrow> \<exists>e. pg_update old None c d = Inl e"
  by (simp add: pg_update_def)

lemma pg_update_taken_id_fails:
  "table d = Some rs \<Longrightarrow> j \<in> fst ` set rs \<Longrightarrow> j \<noteq> old \<Longrightarrow>
   \<exists>e. pg_update old (Some j) c d = Inl e"
  by (simp add: pg_update_def)

subsection \<open>Well-formedness is kept by every statement\<close>

lemma wf_db_Some:
  "table d = Some rs \<Longrightarrow> wf_db d \<longleftrightarrow>
     distinct (row_ids rs) \<and> list_all in_int4 (row_ids rs) \<and>
     list_all (\<lambda>r. text_ok (snd r)) rs \<and> 1 \<le> next_id d \<and> next_id d \<le> int4_max + 1"
  by (simp add: wf_db_def)

lemma wf_db_None: "table d = None \<Longrightarrow> wf_db d"
  by (simp add: wf_db_def)

lemma create_all_wf: "wf_db (create_all d) = wf_db d"
  by (auto simp: create_all_def wf_db_def int4_max_def split: option.splits)

lemma pg_insert_wf:
  assumes "wf_db d"
  shows "wf_db (snd (pg_insert oid c d))"
proof (cases "pg_insert oid c d")
  case (Pair r d')
  show ?thesis
  proof (cases r)
    case (Inl e)
    with Pair have "table d' = table d" and "next_id d \<le> next_id d'"
      by (auto dest: pg_insert_Inl_table pg_insert_next_id_mono)
    moreover have "next_id d' \<le> max (next_id d) (int4_max + 1)"
      using Pair Inl by (auto simp: pg_insert_def Let_def split: if_splits option.splits)
    ultimately show ?thesis
      using assms Pair by (auto simp: wf_db_def split: option.splits)
  next
    case (Inr i)
    with Pair obtain rs where rs: "table d = Some rs" "i \<notin> set (row_ids rs)" "text_ok c"
      "table d' = Some (rs @ [(i, c)])"
      and oid: "case oid of Some j \<Rightarrow> i = j \<and> in_int4 i \<and> next_id d' = next_id d
        | None \<Rightarrow> i = next_id d \<and> i \<le> int4_max \<and> next_id d' = i + 1"
      by (blast dest: pg_insert_Inr)
    have "in_int4 i \<and> 1 \<le> next_id d' \<and> next_id d' \<le> int4_max + 1"
      using oid assms rs(1) by (cases oid) (auto simp: wf_db_Some in_int4_def int4_min_def)
    with assms rs Pair show ?thesis by (simp add: wf_db_Some)
  qed
qed

lemma pg_update_wf:
  assumes "wf_db d" and "pg_update old n c d = Inr (j, d')"
  shows "wf_db d'"
proof -
  obtain rs where rs: "table d = Some rs" "old \<in> set (row_ids rs)" "in_int4 j" "text_ok c"
    "j = old \<or> j \<notin> set (row_ids rs)" "next_id d' = next_id d"
    "table d' = Some (map (\<lambda>r. if fst r = old then (j, c) else r) rs)"
    using pg_update_Inr [OF assms(2)] by blast
  let ?rs' = "map (\<lambda>r. if fst r = old then (j, c) else r) rs"
  have "distinct (row_ids rs)" using assms(1) rs(1) by (simp add: wf_db_Some)
  then have "distinct (map (\<lambda>k. if k = old then j else k) (row_ids rs))"
    using rs(5) by (rule distinct_rewrite_id)
  then have "distinct (row_ids ?rs')" by (simp only: ids_rewrite_row)
  moreover have "list_all in_int4 (row_ids ?rs')" "list_all (\<lambda>r. text_ok (snd r)) ?rs'"
    using assms(1) rs by (auto simp: wf_db_Some list_all_iff)
  ultimately show ?thesis using assms(1) rs by (simp add: wf_db_Some)
qed

lemma pg_delete_wf:
  assumes "wf_db d" and "pg_delete i d = Inr d'"
  shows "wf_db d'"
  using assms pg_delete_Inr [OF assms(2)]
  by (auto simp: wf_db_Some distinct_ids_filter list_all_iff)

subsection \<open>The statements refine operations on the map abstraction\<close>

lemma tmap_Some: "table d = Some rs \<Longrightarrow> tmap d = Some (map_of rs)"
  by (simp add: tmap_def)

lemma pg_select_id_map:
  "table d = Some rs \<Longrightarrow>
   pg_select_id i d = Inr (case map_of rs i of None \<Rightarrow> None | Some c \<Rightarrow> Some (i, c))"
  by (simp add: pg_select_id_def find_row_map_of)

lemma pg_insert_tmap:
  assumes "pg_insert oid c d = (Inr i, d')" and "table d = Some rs"
  shows "i \<notin> dom (map_of rs) \<and> tmap d' = Some ((map_of rs)(i \<mapsto> c))"
proof -
  have "i \<notin> set (row_ids rs)" and "table d' = Some (rs @ [(i, c)])"
    using pg_insert_Inr [OF assms(1)] assms(2) by auto
  then show ?thesis
    by (simp del: map_of_append add: tmap_def map_of_snoc_row dom_map_of_conv_image_fst)
qed

lemma pg_update_tmap:
  "wf_db d \<Longrightarrow> pg_update old n c d = Inr (j, d') \<Longrightarrow> table d = Some rs \<Longrightarrow>
   old \<in> dom (map_of rs) \<and> tmap d' = Some (((map_of rs)(old := None))(j \<mapsto> c))"
  by (auto dest!: pg_update_Inr simp: tmap_def wf_db_Some map_of_rewrite_row dom_map_of_conv_image_fst)

lemma pg_delete_tmap:
  "pg_delete i d = Inr d' \<Longrightarrow> table d = Some rs \<Longrightarrow> tmap d' = Some ((map_of rs)(i := None))"
  by (auto dest!: pg_delete_Inr simp: tmap_def map_of_filter_id)

end
