(* ===== verification/Todo_Api.thy ===== *)
theory Todo_Api
  imports Pg_Store
begin

text \<open>
  The route handlers of \<open>src/fastapi_todo/main.py\<close> and the session they run
  in. \<open>todo\<close> is the \<open>Todo\<close> SQLModel class (lines 9--11): \<open>id\<close> is
  optional in a request body and assigned by the database, \<open>content\<close> is
  required. A handler returns a Python value (\<open>pyval\<close>) or raises an
  exception (\<open>exc\<close>): \<open>HTTPException\<close> raised by the code, a database
  error propagated from the driver, or the ORM's \<open>ObjectDeletedError\<close> when
  \<open>session.refresh\<close> finds no row.

  \<open>get_session\<close> (lines 45--47) opens one \<open>Session(engine)\<close> per request and
  closes it when the request is done. The session here records the table as
  of the last commit; closing it rolls back whatever was not committed,
  which restores the table but not the sequence (\<open>close_session\<close>).
  The handlers' statements run on the session's database state; each
  \<open>session.commit()\<close> is \<open>session_commit\<close>.
\<close>

record todo =
  todo_id :: "int option"
  content :: string

datatype exc =
    HTTPException nat string
  | DBAPIError db_error
  | ObjectDeletedError

datatype pyval =
    PyNone
  | PyInt int
  | PyStr string
  | PyDict "(string \<times> pyval) list"
  | PyList "pyval list"
  | PyTodo todo

record session =
  sess_db :: db
  sess_committed :: "row list option"

definition open_session :: "db \<Rightarrow> session" where
  "open_session d = \<lparr>sess_db = d, sess_committed = table d\<rparr>"

definition session_commit :: "session \<Rightarrow> session" where
  "session_commit s = s\<lparr>sess_committed := table (sess_db s)\<rparr>"

definition close_session :: "session \<Rightarrow> db" where
  "close_session s = (sess_db s)\<lparr>table := sess_committed s\<rparr>"

definition get_session :: "(session \<Rightarrow> (exc + 'a) \<times> session) \<Rightarrow> db \<Rightarrow> (exc + 'a) \<times> db" where
  "get_session h d = (case h (open_session d) of (r, s) \<Rightarrow> (r, close_session s))"

definition row_todo :: "row \<Rightarrow> todo" where
  "row_todo r = \<lparr>todo_id = Some (fst r), content = snd r\<rparr>"

text \<open>\<open>session.refresh(obj)\<close>: reload the row of the object's primary key.\<close>

definition session_refresh :: "int \<Rightarrow> session \<Rightarrow> exc + todo" where
  "session_refresh i s =
     (case pg_select_id i (sess_db s) of
       Inl e \<Rightarrow> Inl (DBAPIError e)
     | Inr None \<Rightarrow> Inl ObjectDeletedError
     | Inr (Some r) \<Rightarrow> Inr (row_todo r))"

text \<open>\<open>updated_todo.dict()\<close> lists every field of the model, \<open>id\<close> included,
  and the loop of lines 78--79 assigns each of them to the loaded object.\<close>

datatype field_val = FId "int option" | FContent string

definition todo_dict :: "todo \<Rightarrow> (string \<times> field_val) list" where
  "todo_dict t = [(''id'', FId (todo_id t)), (''content'', FContent (content t))]"

fun set_attr :: "todo \<Rightarrow> string \<times> field_val \<Rightarrow> todo" where
  "set_attr t (k, FId v) = (if k = ''id'' then t\<lparr>todo_id := v\<rparr> else t)"
| "set_attr t (k, FContent v) = (if k = ''content'' then t\<lparr>content := v\<rparr> else t)"

definition copy_fields :: "todo \<Rightarrow> todo \<Rightarrow> todo" where
  "copy_fields obj updated = foldl set_attr obj (todo_dict updated)"

subsection \<open>The route handlers\<close>

definition read_root :: pyval where
  "read_root = PyDict [(''Hello'', PyStr ''Backend Developer'')]"

definition create_todo :: "todo \<Rightarrow> session \<Rightarrow> (exc + pyval) \<times> session" where
  "create_todo t s =
     (case pg_insert (todo_id t) (content t) (sess_db s) of
       (Inl e, d') \<Rightarrow> (Inl (DBAPIError e), s\<lparr>sess_db := d'\<rparr>)
     | (Inr i, d') \<Rightarrow>
         (let s' = session_commit (s\<lparr>sess_db := d'\<rparr>)
          in (case session_refresh i s' of
               Inl e \<Rightarrow> (Inl e, s')
             | Inr t' \<Rightarrow> (Inr (PyTodo t'), s'))))"

definition read_todos :: "session \<Rightarrow> (exc + pyval) \<times> session" where
  "read_todos s =
     (case pg_select_all (sess_db s) of
       Inl e \<Rightarrow> (Inl (DBAPIError e), s)
     | Inr rs \<Rightarrow> (Inr (PyList (map (\<lambda>r. PyTodo (row_todo r)) rs)), s))"

definition update_todo :: "int \<Rightarrow> todo \<Rightarrow> session \<Rightarrow> (exc + pyval) \<times> session" where
  "update_todo tid updated s =
     (case pg_select_id tid (sess_db s) of
       Inl e \<Rightarrow> (Inl (DBAPIError e), s)
     | Inr None \<Rightarrow> (Inl (HTTPException 404 ''Todo not found''), s)
     | Inr (Some r) \<Rightarrow>
         (let obj = copy_fields (row_todo r) updated
          in (case pg_update (fst r) (todo_id obj) (content obj) (sess_db s) of
               Inl e \<Rightarrow> (Inl (DBAPIError e), s)
             | Inr (j, d') \<Rightarrow>
                 (let s' = session_commit (s\<lparr>sess_db := d'\<rparr>)
                  in (case session_refresh j s' of
                       Inl e \<Rightarrow> (Inl e, s')
                     | Inr t' \<Rightarrow> (Inr (PyTodo t'), s'))))))"

definition delete_todo :: "int \<Rightarrow> session \<Rightarrow> (exc + pyval) \<times> session" where
  "delete_todo tid s =
     (case pg_select_id tid (sess_db s) of
       Inl e \<Rightarrow> (Inl (DBAPIError e), s)
     | Inr None \<Rightarrow> (Inl (HTTPException 404 ''Todo not found''), s)
     | Inr (Some r) \<Rightarrow>
         (case pg_delete (fst r) (sess_db s) of
           Inl e \<Rightarrow> (Inl (DBAPIError e), s)
         | Inr d' \<Rightarrow>
             (Inr (PyDict [(''message'', PyStr ''Todo deleted'')]),
              session_commit (s\<lparr>sess_db := d'\<rparr>))))"

subsection \<open>The session is transparent to committed work\<close>

named_theorems session_simps "how opening, committing and closing a session act on the database"

lemma close_open_session [session_simps]: "close_session (open_session d) = d"
  by (simp add: close_session_def open_session_def)

lemma close_session_commit [session_simps]:
  "close_session (session_commit (s\<lparr>sess_db := d'\<rparr>)) = d'"
  by (simp add: close_session_def session_commit_def)

lemma close_session_uncommitted [session_simps]:
  "close_session ((open_session d)\<lparr>sess_db := d'\<rparr>) = d'\<lparr>table := table d\<rparr>"
  by (simp add: close_session_def open_session_def)

lemma sess_db_simps [session_simps]:
  "sess_db (open_session d) = d" "sess_db (session_commit s) = sess_db s"
  by (simp_all add: open_session_def session_commit_def)

lemma copy_fields_all: "copy_fields obj updated = updated"
  by (simp add: copy_fields_def todo_dict_def)

lemma refresh_found:
  "table (sess_db s) = Some rs \<Longrightarrow> map_of rs i = Some c \<Longrightarrow>
   session_refresh i s = Inr \<lparr>todo_id = Some i, content = c\<rparr>"
  by (simp add: session_refresh_def pg_select_id_def find_row_map_of row_todo_def)

lemma refresh_after_insert:
  assumes "pg_insert oid c d = (Inr i, d')"
  shows "session_refresh i (session_commit (s\<lparr>sess_db := d'\<rparr>)) = Inr \<lparr>todo_id = Some i, content = c\<rparr>"
proof -
  obtain rs where tab: "table d' = Some (rs @ [(i, c)])" and "i \<notin> set (row_ids rs)"
    using pg_insert_Inr [OF assms] by blast
  then have "map_of (rs @ [(i, c)]) i = Some c" by (simp del: map_of_append add: map_of_snoc_new)
  with tab show ?thesis
    by (intro refresh_found [where rs = "rs @ [(i, c)]"]) (simp_all add: session_simps)
qed

lemma refresh_after_update:
  assumes "wf_db d" and "pg_update old n c d = Inr (j, d')"
  shows "session_refresh j (session_commit (s\<lparr>sess_db := d'\<rparr>)) = Inr \<lparr>todo_id = Some j, content = c\<rparr>"
proof -
  obtain rs where rs: "table d = Some rs" "old \<in> set (row_ids rs)"
    "table d' = Some (map (\<lambda>r. if fst r = old then (j, c) else r) rs)"
    using pg_update_Inr [OF assms(2)] by blast
  have "tmap d' = Some (((map_of rs)(old := None))(j \<mapsto> c))"
    using pg_update_tmap [OF assms rs(1)] by blast
  then have "map_of (map (\<lambda>r. if fst r = old then (j, c) else r) rs) j = Some c"
    using rs(3) by (simp add: tmap_def)
  with rs(3) show ?thesis
    by (intro refresh_found) (simp_all add: session_simps)
qed

end
