(* ===== verification/Http_App.thy ===== *)
theory Http_App
  imports Todo_Api
begin

text \<open>
  The HTTP layer of \<open>src/fastapi_todo/main.py\<close>: the five routes declared
  by the decorators of lines 51--94, each with its \<open>response_model\<close>, and
  what FastAPI does with a handler's outcome. A returned value is validated
  against the route's response model and encoded as JSON (status 200); a value
  that does not validate is a \<open>ResponseValidationError\<close>, answered with
  status 500. A raised \<open>HTTPException\<close> becomes its status code with body
  \<open>{"detail": ...}\<close>; any other exception is status 500. Request bodies
  arrive here already parsed into a \<open>todo\<close>; routing and the binding of
  path and body, with their 404, 405, 307 and 422 answers, are the theory
  \<open>Http_Request\<close>.
  \<open>serve\<close> runs one request to completion on a database state; \<open>run_requests\<close>
  runs a sequence of them, one after the other.
\<close>

datatype json =
    JNull
  | JInt int
  | JStr string
  | JObj "(string \<times> json) list"
  | JArr "json list"

record http_response =
  status :: nat
  body :: json

datatype response_model = NoModel | TodoModel | TodoListModel

datatype request =
    Get_Root
  | Post_Todos todo
  | Get_Todos
  | Put_Todo int todo
  | Delete_Todo int

definition todo_json :: "todo \<Rightarrow> json" where
  "todo_json t =
     JObj [(''id'', case todo_id t of None \<Rightarrow> JNull | Some i \<Rightarrow> JInt i),
           (''content'', JStr (content t))]"

fun jsonable :: "pyval \<Rightarrow> json" where
  "jsonable PyNone = JNull"
| "jsonable (PyInt i) = JInt i"
| "jsonable (PyStr s) = JStr s"
| "jsonable (PyDict kvs) = JObj (map (\<lambda>kv. (fst kv, jsonable (snd kv))) kvs)"
| "jsonable (PyList vs) = JArr (map jsonable vs)"
| "jsonable (PyTodo t) = todo_json t"

text \<open>Validation of a returned value against the \<open>Todo\<close> model: an ORM
  object validates from its attributes; a dict needs a string
  \<open>content\<close> and an optional integer \<open>id\<close>.\<close>

fun validate_todo :: "pyval \<Rightarrow> todo option" where
  "validate_todo (PyTodo t) = Some t"
| "validate_todo (PyDict kvs) =
     (case map_of kvs ''content'' of
       Some (PyStr c) \<Rightarrow>
         (case map_of kvs ''id'' of
           None \<Rightarrow> Some \<lparr>todo_id = None, content = c\<rparr>
         | Some PyNone \<Rightarrow> Some \<lparr>todo_id = None, content = c\<rparr>
         | Some (PyInt i) \<Rightarrow> Some \<lparr>todo_id = Some i, content = c\<rparr>
         | Some _ \<Rightarrow> None)
     | _ \<Rightarrow> None)"
| "validate_todo _ = None"

fun serialize_response :: "response_model \<Rightarrow> pyval \<Rightarrow> json option" where
  "serialize_response NoModel v = Some (jsonable v)"
| "serialize_response TodoModel v = map_option todo_json (validate_todo v)"
| "serialize_response TodoListModel (PyList vs) =
     map_option (\<lambda>ts. JArr (map todo_json ts)) (those (map validate_todo vs))"
| "serialize_response TodoListModel _ = None"

fun route_model :: "request \<Rightarrow> response_model" where
  "route_model Get_Root = NoModel"
| "route_model (Post_Todos _) = TodoModel"
| "route_model Get_Todos = TodoListModel"
| "route_model (Put_Todo _ _) = TodoModel"
| "route_model (Delete_Todo _) = TodoModel"

definition internal_error :: http_response where
  "internal_error = \<lparr>status = 500, body = JStr ''Internal Server Error''\<rparr>"

fun error_response :: "exc \<Rightarrow> http_response" where
  "error_response (HTTPException code detail) = \<lparr>status = code, body = JObj [(''detail'', JStr detail)]\<rparr>"
| "error_response (DBAPIError _) = internal_error"
| "error_response ObjectDeletedError = internal_error"

fun dispatch :: "request \<Rightarrow> db \<Rightarrow> (exc + pyval) \<times> db" where
  "dispatch Get_Root d = (Inr read_root, d)"
| "dispatch (Post_Todos t) d = get_session (create_todo t) d"
| "dispatch Get_Todos d = get_session read_todos d"
| "dispatch (Put_Todo tid t) d = get_session (update_todo tid t) d"
| "dispatch (Delete_Todo tid) d = get_session (delete_todo tid) d"

definition serve :: "request \<Rightarrow> db \<Rightarrow> http_response \<times> db" where
  "serve r d =
     (case dispatch r d of
       (Inl e, d') \<Rightarrow> (error_response e, d')
     | (Inr v, d') \<Rightarrow>
         (case serialize_response (route_model r) v of
           None \<Rightarrow> (internal_error, d')
         | Some j \<Rightarrow> (\<lparr>status = 200, body = j\<rparr>, d')))"

fun run_requests :: "request list \<Rightarrow> db \<Rightarrow> http_response list \<times> db" where
  "run_requests [] d = ([], d)"
| "run_requests (r # rs) d =
     (case serve r d of
       (resp, d') \<Rightarrow> (case run_requests rs d' of (resps, d'') \<Rightarrow> (resp # resps, d'')))"

subsection \<open>Each route, through its session\<close>

text \<open>Running a handler inside \<open>get_session\<close> leaves exactly the committed
  work: these lemmas state each route's outcome in terms of the storage
  statements alone.\<close>

lemma dispatch_create:
  "dispatch (Post_Todos t) d =
     (case pg_insert (todo_id t) (content t) d of
       (Inl e, d') \<Rightarrow> (Inl (DBAPIError e), d')
     | (Inr i, d') \<Rightarrow> (Inr (PyTodo \<lparr>todo_id = Some i, content = content t\<rparr>), d'))"
proof (cases "pg_insert (todo_id t) (content t) d")
  case (Pair r d')
  show ?thesis
  proof (cases r)
    case (Inl e)
    with Pair have "table d' = table d" by (blast dest: pg_insert_Inl_table)
    with Pair Inl show ?thesis
      by (simp add: get_session_def create_todo_def session_simps)
  next
    case (Inr i)
    with Pair show ?thesis
      by (simp add: get_session_def create_todo_def session_simps refresh_after_insert)
  qed
qed

lemma dispatch_update:
  assumes "wf_db d"
  shows "dispatch (Put_Todo tid u) d =
     (case pg_select_id tid d of
       Inl e \<Rightarrow> (Inl (DBAPIError e), d)
     | Inr None \<Rightarrow> (Inl (HTTPException 404 ''Todo not found''), d)
     | Inr (Some r) \<Rightarrow>
         (case pg_update (fst r) (todo_id u) (content u) d of
           Inl e \<Rightarrow> (Inl (DBAPIError e), d)
         | Inr (j, d') \<Rightarrow> (Inr (PyTodo \<lparr>todo_id = Some j, content = content u\<rparr>), d')))"
proof (cases "pg_select_id tid d")
  case (Inl e)
  then show ?thesis by (simp add: get_session_def update_todo_def session_simps)
next
  case (Inr ro)
  show ?thesis
  proof (cases ro)
    case None
    with Inr show ?thesis by (simp add: get_session_def update_todo_def session_simps)
  next
    case (Some r)
    show ?thesis
    proof (cases "pg_update (fst r) (todo_id u) (content u) d")
      case (Inl e)
      with Inr Some show ?thesis
        by (simp add: get_session_def update_todo_def session_simps copy_fields_all)
    next
      case (Inr jd)
      obtain j d' where jd: "jd = (j, d')" by (cases jd)
      have "session_refresh j (session_commit ((open_session d)\<lparr>sess_db := d'\<rparr>)) =
            Inr \<lparr>todo_id = Some j, content = content u\<rparr>"
        using assms Inr jd by (blast intro: refresh_after_update)
      with Inr jd \<open>pg_select_id tid d = Inr ro\<close> Some show ?thesis
        by (simp add: get_session_def update_todo_def session_simps copy_fields_all)
    qed
  qed
qed

lemma dispatch_delete:
  "dispatch (Delete_Todo tid) d =
     (case pg_select_id tid d of
       Inl e \<Rightarrow> (Inl (DBAPIError e), d)
     | Inr None \<Rightarrow> (Inl (HTTPException 404 ''Todo not found''), d)
     | Inr (Some r) \<Rightarrow>
         (case pg_delete (fst r) d of
           Inl e \<Rightarrow> (Inl (DBAPIError e), d)
         | Inr d' \<Rightarrow> (Inr (PyDict [(''message'', PyStr ''Todo deleted'')]), d')))"
  by (simp add: get_session_def delete_todo_def session_simps
      split: sum.split option.split)

lemma dispatch_read_todos:
  "dispatch Get_Todos d =
     (case pg_select_all d of
       Inl e \<Rightarrow> (Inl (DBAPIError e), d)
     | Inr rs \<Rightarrow> (Inr (PyList (map (\<lambda>r. PyTodo (row_todo r)) rs)), d))"
  by (simp add: get_session_def read_todos_def session_simps split: sum.split)

lemma dispatch_root: "dispatch Get_Root d = (Inr read_root, d)"
  by simp

declare dispatch.simps [simp del]

lemmas dispatch_simps = dispatch_root dispatch_create dispatch_delete dispatch_read_todos

lemma those_map_Some: "those (map (\<lambda>x. Some (f x)) xs) = Some (map f xs)"
  by (induction xs) simp_all

lemma dispatch_update_missing:
  "pg_select_id tid d = Inr None \<Longrightarrow>
   dispatch (Put_Todo tid u) d = (Inl (HTTPException 404 ''Todo not found''), d)"
  by (simp add: dispatch.simps get_session_def update_todo_def session_simps)

lemma dispatch_update_fail:
  "pg_select_id tid d = Inr (Some r) \<Longrightarrow> pg_update (fst r) (todo_id u) (content u) d = Inl e \<Longrightarrow>
   dispatch (Put_Todo tid u) d = (Inl (DBAPIError e), d)"
  by (simp add: dispatch.simps get_session_def update_todo_def session_simps copy_fields_all)

lemma serve_snd: "snd (serve r d) = snd (dispatch r d)"
  by (simp add: serve_def split: prod.split sum.split option.split)

lemma select_found:
  "table d = Some rs \<Longrightarrow> map_of rs tid = Some c0 \<Longrightarrow> pg_select_id tid d = Inr (Some (tid, c0))"
  by (simp add: pg_select_id_map)

lemma select_missing:
  assumes "table d = Some rs" and "tid \<notin> fst ` set rs"
  shows "pg_select_id tid d = Inr None"
proof -
  have "map_of rs tid = None" using assms(2) by (simp add: map_of_eq_None_iff)
  with assms(1) show ?thesis by (simp add: pg_select_id_map)
qed

lemma id_in_table:
  "tid \<in> fst ` set rs \<Longrightarrow> \<exists>c0. map_of rs tid = Some c0"
  by (metis map_of_eq_None_iff not_None_eq)

lemma wf_id_in_int4:
  "wf_db d \<Longrightarrow> table d = Some rs \<Longrightarrow> tid \<in> fst ` set rs \<Longrightarrow> in_int4 tid"
  by (auto simp: wf_db_Some list_all_iff)

lemmas serve_simps = serve_def todo_json_def internal_error_def

subsection \<open>Creating a todo\<close>

lemma serve_create_next_id:
  assumes "table d = Some rs" and "next_id d \<le> int4_max"
    and "next_id d \<notin> fst ` set rs" and "text_ok c"
  shows "serve (Post_Todos \<lparr>todo_id = None, content = c\<rparr>) d =
    (\<lparr>status = 200, body = JObj [(''id'', JInt (next_id d)), (''content'', JStr c)]\<rparr>,
     d\<lparr>table := Some (rs @ [(next_id d, c)]), next_id := next_id d + 1\<rparr>)"
proof -
  have "pg_insert None c d =
    (Inr (next_id d), d\<lparr>table := Some (rs @ [(next_id d, c)]), next_id := next_id d + 1\<rparr>)"
    using assms by (simp add: pg_insert_def Let_def)
  then show ?thesis by (simp add: serve_simps dispatch_create)
qed

text \<open>C1: \<open>POST /todos/\<close> with a body without \<open>id\<close>, on a table whose next
  sequence value is free and in range, answers 200 with the row the database
  stored, whose \<open>id\<close> is that sequence value; the row is appended and the
  sequence advances by one.\<close>

theorem serve_create_auto_id:
  assumes "table d = Some rs" and "next_id d \<le> int4_max"
    and "next_id d \<notin> fst ` set rs" and "text_ok c"
  shows "serve (Post_Todos \<lparr>todo_id = None, content = c\<rparr>) d =
    (\<lparr>status = 200, body = JObj [(''id'', JInt (next_id d)), (''content'', JStr c)]\<rparr>,
     d\<lparr>table := Some (rs @ [(next_id d, c)]), next_id := next_id d + 1\<rparr>)"
  using assms by (rule serve_create_next_id)

theorem serve_create_auto_id_witness:
  "serve (Post_Todos \<lparr>todo_id = None, content = ''buy milk''\<rparr>) \<lparr>table = Some [], next_id = 1\<rparr> =
    (\<lparr>status = 200, body = JObj [(''id'', JInt 1), (''content'', JStr ''buy milk'')]\<rparr>,
     \<lparr>table = Some [(1, ''buy milk'')], next_id = 2\<rparr>)"
  using serve_create_auto_id [of "\<lparr>table = Some [], next_id = 1\<rparr>" "[]" "''buy milk''"]
  by (simp add: int4_max_def text_ok_def)

subsection \<open>Updating a todo\<close>

lemma serve_update_in_place:
  assumes "wf_db d" and "table d = Some rs" and "map_of rs tid = Some c0" and "text_ok c"
  shows "serve (Put_Todo tid \<lparr>todo_id = Some tid, content = c\<rparr>) d =
    (\<lparr>status = 200, body = JObj [(''id'', JInt tid), (''content'', JStr c)]\<rparr>,
     d\<lparr>table := Some (map (\<lambda>r. if fst r = tid then (tid, c) else r) rs)\<rparr>)"
proof -
  have mem: "tid \<in> fst ` set rs" using assms(3) by (force dest: map_of_SomeD)
  with assms(1,2) have "in_int4 tid" by (rule wf_id_in_int4)
  with mem assms(2,4) have "pg_update tid (Some tid) c d =
    Inr (tid, d\<lparr>table := Some (map (\<lambda>r. if fst r = tid then (tid, c) else r) rs)\<rparr>)"
    by (simp add: pg_update_def)
  with assms show ?thesis by (simp add: serve_simps dispatch_update select_found)
qed

text \<open>C3: \<open>PUT /todos/{todo_id}\<close> on an existing row, with a body that
  repeats the row's \<open>id\<close>, answers 200 with the new content and rewrites that
  row in place.\<close>

theorem serve_update_same_id:
  assumes "wf_db d" and "table d = Some rs" and "map_of rs tid = Some c0" and "text_ok c"
  shows "serve (Put_Todo tid \<lparr>todo_id = Some tid, content = c\<rparr>) d =
    (\<lparr>status = 200, body = JObj [(''id'', JInt tid), (''content'', JStr c)]\<rparr>,
     d\<lparr>table := Some (map (\<lambda>r. if fst r = tid then (tid, c) else r) rs)\<rparr>)"
  using assms by (rule serve_update_in_place)

theorem serve_update_same_id_witness:
  "serve (Put_Todo 1 \<lparr>todo_id = Some 1, content = ''buy eggs''\<rparr>) \<lparr>table = Some [(1, ''buy milk'')], next_id = 2\<rparr> =
    (\<lparr>status = 200, body = JObj [(''id'', JInt 1), (''content'', JStr ''buy eggs'')]\<rparr>,
     \<lparr>table = Some [(1, ''buy eggs'')], next_id = 2\<rparr>)"
  using serve_update_same_id [of "\<lparr>table = Some [(1, ''buy milk'')], next_id = 2\<rparr>"
      "[(1, ''buy milk'')]" 1 "''buy milk''" "''buy eggs''"]
  by (simp add: wf_db_def in_int4_def int4_min_def int4_max_def text_ok_def)

text \<open>C6: the usual update body, \<open>{"content": ...}\<close> without \<open>id\<close>, fails on an
  existing row: the loop over \<open>updated_todo.dict()\<close> also assigns
  \<open>id = None\<close>, the flush sets the primary key to NULL, PostgreSQL refuses
  it, and the client gets 500 with the row unchanged.\<close>

theorem serve_update_without_id:
  assumes "table d = Some rs" and "tid \<in> fst ` set rs"
  shows "serve (Put_Todo tid \<lparr>todo_id = None, content = c\<rparr>) d = (internal_error, d)"
proof -
  obtain c0 where c0: "map_of rs tid = Some c0" using id_in_table [OF assms(2)] by blast
  obtain e where "pg_update tid None c d = Inl e"
    using pg_update_null_id_fails [OF assms(1)] by blast
  with assms(1) c0 show ?thesis
    by (simp add: serve_def select_found dispatch_update_fail)
qed

theorem serve_update_without_id_witness:
  "serve (Put_Todo 1 \<lparr>todo_id = None, content = ''buy eggs''\<rparr>) \<lparr>table = Some [(1, ''buy milk'')], next_id = 2\<rparr> =
    (internal_error, \<lparr>table = Some [(1, ''buy milk'')], next_id = 2\<rparr>)"
  using serve_update_without_id [of "\<lparr>table = Some [(1, ''buy milk'')], next_id = 2\<rparr>"
      "[(1, ''buy milk'')]" 1 "''buy eggs''"]
  by simp

text \<open>C7: a body whose \<open>id\<close> names another, free, id moves the row: the
  answer is 200 with the new id, the old id has no row any more and the new
  id holds the new content.\<close>

theorem serve_update_moves_id:
  assumes "wf_db d" and "table d = Some rs" and "tid \<in> fst ` set rs"
    and "j \<notin> fst ` set rs" and "in_int4 j" and "text_ok c"
  shows "fst (serve (Put_Todo tid \<lparr>todo_id = Some j, content = c\<rparr>) d) =
      \<lparr>status = 200, body = JObj [(''id'', JInt j), (''content'', JStr c)]\<rparr> \<and>
    tmap (snd (serve (Put_Todo tid \<lparr>todo_id = Some j, content = c\<rparr>) d)) =
      Some (((map_of rs)(tid := None))(j \<mapsto> c))"
proof -
  obtain c0 where c0: "map_of rs tid = Some c0" using id_in_table [OF assms(3)] by blast
  let ?d' = "d\<lparr>table := Some (map (\<lambda>r. if fst r = tid then (j, c) else r) rs)\<rparr>"
  have upd: "pg_update tid (Some j) c d = Inr (j, ?d')"
    using assms by (simp add: pg_update_def)
  have "tmap ?d' = Some (((map_of rs)(tid := None))(j \<mapsto> c))"
    using pg_update_tmap [OF assms(1) upd assms(2)] by blast
  with assms(1,2) c0 upd show ?thesis
    by (simp add: serve_simps dispatch_update select_found)
qed

theorem serve_update_moves_id_witness:
  "fst (serve (Put_Todo 1 \<lparr>todo_id = Some 7, content = ''b''\<rparr>) \<lparr>table = Some [(1, ''a'')], next_id = 2\<rparr>) =
      \<lparr>status = 200, body = JObj [(''id'', JInt 7), (''content'', JStr ''b'')]\<rparr> \<and>
   tmap (snd (serve (Put_Todo 1 \<lparr>todo_id = Some 7, content = ''b''\<rparr>) \<lparr>table = Some [(1, ''a'')], next_id = 2\<rparr>)) =
      Some (((map_of [(1, ''a'')])(1 := None))(7 \<mapsto> ''b''))"
  by (rule serve_update_moves_id [where rs = "[(1, ''a'')]"])
     (simp_all add: wf_db_def in_int4_def int4_min_def int4_max_def text_ok_def)

text \<open>C18: a body whose \<open>id\<close> names another existing row violates the
  primary key: 500, nothing changed.\<close>

theorem serve_update_id_taken:
  assumes "table d = Some rs" and "tid \<in> fst ` set rs" and "j \<in> fst ` set rs" and "j \<noteq> tid"
  shows "serve (Put_Todo tid \<lparr>todo_id = Some j, content = c\<rparr>) d = (internal_error, d)"
proof -
  obtain c0 where c0: "map_of rs tid = Some c0" using id_in_table [OF assms(2)] by blast
  obtain e where "pg_update tid (Some j) c d = Inl e"
    using pg_update_taken_id_fails [OF assms(1,3,4)] by blast
  with assms(1) c0 show ?thesis
    by (simp add: serve_def select_found dispatch_update_fail)
qed

theorem serve_update_id_taken_witness:
  "serve (Put_Todo 1 \<lparr>todo_id = Some 2, content = ''c''\<rparr>) \<lparr>table = Some [(1, ''a''), (2, ''b'')], next_id = 3\<rparr> =
    (internal_error, \<lparr>table = Some [(1, ''a''), (2, ''b'')], next_id = 3\<rparr>)"
  using serve_update_id_taken [of "\<lparr>table = Some [(1, ''a''), (2, ''b'')], next_id = 3\<rparr>"
      "[(1, ''a''), (2, ''b'')]" 1 2 "''c''"]
  by simp

subsection \<open>Deleting, listing, the root route\<close>

lemma serve_delete_absent:
  assumes "table d = Some rs" and "tid \<notin> fst ` set rs"
  shows "serve (Delete_Todo tid) d =
    (\<lparr>status = 404, body = JObj [(''detail'', JStr ''Todo not found'')]\<rparr>, d)"
  using assms by (simp add: serve_def select_missing dispatch_delete)

text \<open>C4: updating or deleting an id that has no row answers 404 with
  detail \<open>Todo not found\<close> and changes nothing: both handlers raise the
  \<open>HTTPException\<close> after their \<open>SELECT\<close> finds no row.\<close>

theorem serve_missing_404:
  assumes "table d = Some rs" and "tid \<notin> fst ` set rs"
  shows "serve (Put_Todo tid u) d =
      (\<lparr>status = 404, body = JObj [(''detail'', JStr ''Todo not found'')]\<rparr>, d) \<and>
    serve (Delete_Todo tid) d =
      (\<lparr>status = 404, body = JObj [(''detail'', JStr ''Todo not found'')]\<rparr>, d)"
  using assms serve_delete_absent [OF assms]
  by (simp add: serve_def select_missing dispatch_update_missing)

theorem serve_missing_404_witness:
  "serve (Put_Todo 99999 \<lparr>todo_id = None, content = ''x''\<rparr>) \<lparr>table = Some [], next_id = 1\<rparr> =
    (\<lparr>status = 404, body = JObj [(''detail'', JStr ''Todo not found'')]\<rparr>, \<lparr>table = Some [], next_id = 1\<rparr>) \<and>
   serve (Delete_Todo 99999) \<lparr>table = Some [], next_id = 1\<rparr> =
    (\<lparr>status = 404, body = JObj [(''detail'', JStr ''Todo not found'')]\<rparr>, \<lparr>table = Some [], next_id = 1\<rparr>)"
  using serve_missing_404 [of "\<lparr>table = Some [], next_id = 1\<rparr>" "[]" 99999] by simp

lemma serve_delete_found:
  assumes "table d = Some rs" and "tid \<in> fst ` set rs"
  shows "serve (Delete_Todo tid) d =
    (internal_error, d\<lparr>table := Some (filter (\<lambda>r. fst r \<noteq> tid) rs)\<rparr>)"
proof -
  obtain c0 where "map_of rs tid = Some c0" using id_in_table [OF assms(2)] by blast
  with assms(1) have "pg_select_id tid d = Inr (Some (tid, c0))" by (rule select_found)
  with assms(1) show ?thesis by (simp add: serve_def dispatch_delete pg_delete_def)
qed

text \<open>C5: deleting an existing row commits the deletion, but the route
  declares \<open>response_model=Todo\<close> and returns \<open>{"message": "Todo deleted"}\<close>,
  which has no \<open>content\<close>: response validation fails after the commit and
  the client gets 500 although the row is gone.\<close>

theorem serve_delete_existing:
  assumes "table d = Some rs" and "tid \<in> fst ` set rs"
  shows "serve (Delete_Todo tid) d =
    (internal_error, d\<lparr>table := Some (filter (\<lambda>r. fst r \<noteq> tid) rs)\<rparr>)"
  using assms by (rule serve_delete_found)

theorem serve_delete_existing_witness:
  "serve (Delete_Todo 1) \<lparr>table = Some [(1, ''buy milk'')], next_id = 2\<rparr> =
    (internal_error, \<lparr>table = Some [], next_id = 2\<rparr>)"
  using serve_delete_existing [of "\<lparr>table = Some [(1, ''buy milk'')], next_id = 2\<rparr>" "[(1, ''buy milk'')]" 1]
  by simp

lemma serve_list_rows:
  assumes "table d = Some rs"
  shows "serve Get_Todos d =
    (\<lparr>status = 200, body = JArr (map (\<lambda>r. JObj [(''id'', JInt (fst r)), (''content'', JStr (snd r))]) rs)\<rparr>, d)"
proof -
  have "those (map validate_todo (map (\<lambda>r. PyTodo (row_todo r)) rs)) = Some (map row_todo rs)"
    using those_map_Some [of row_todo rs] by (simp add: comp_def)
  with assms show ?thesis
    by (simp add: serve_def dispatch_read_todos pg_select_all_def todo_json_def row_todo_def comp_def)
qed

text \<open>C8: \<open>GET /todos/\<close> answers 200 with every row of the table, in the
  table's scan order, each as \<open>{"id": ..., "content": ...}\<close>, and changes
  nothing.\<close>

theorem serve_read_todos:
  assumes "table d = Some rs"
  shows "serve Get_Todos d =
    (\<lparr>status = 200, body = JArr (map (\<lambda>r. JObj [(''id'', JInt (fst r)), (''content'', JStr (snd r))]) rs)\<rparr>, d)"
  using assms by (rule serve_list_rows)

theorem serve_read_todos_witness:
  "serve Get_Todos \<lparr>table = Some [(1, ''a''), (2, ''b'')], next_id = 3\<rparr> =
    (\<lparr>status = 200, body = JArr [JObj [(''id'', JInt 1), (''content'', JStr ''a'')],
                                 JObj [(''id'', JInt 2), (''content'', JStr ''b'')]]\<rparr>,
     \<lparr>table = Some [(1, ''a''), (2, ''b'')], next_id = 3\<rparr>)"
  using serve_read_todos [of "\<lparr>table = Some [(1, ''a''), (2, ''b'')], next_id = 3\<rparr>" "[(1, ''a''), (2, ''b'')]"]
  by simp

lemma serve_root:
  "serve Get_Root d = (\<lparr>status = 200, body = JObj [(''Hello'', JStr ''Backend Developer'')]\<rparr>, d)"
  by (simp add: serve_def dispatch_root read_root_def)

subsection \<open>Invariant and atomicity over all routes\<close>

lemma dispatch_db_cases:
  assumes "wf_db d"
  shows "snd (dispatch r d) = d \<or>
    (\<exists>oid c. snd (dispatch r d) = snd (pg_insert oid c d)) \<or>
    (\<exists>old n c j. pg_update old n c d = Inr (j, snd (dispatch r d))) \<or>
    (\<exists>i. pg_delete i d = Inr (snd (dispatch r d)))"
proof (cases r)
  case (Post_Todos t)
  then have "snd (dispatch r d) = snd (pg_insert (todo_id t) (content t) d)"
    by (simp add: dispatch_create split: prod.split sum.split)
  then show ?thesis by blast
next
  case (Put_Todo tid u)
  then show ?thesis using assms
    by (auto simp: dispatch_update split: sum.split option.split prod.split)
next
  case (Delete_Todo tid)
  then show ?thesis
    by (auto simp: dispatch_delete split: sum.split option.split)
qed (simp_all add: dispatch_root dispatch_read_todos split: sum.split)

lemma serve_wf:
  assumes "wf_db d"
  shows "wf_db (snd (serve r d))"
  using dispatch_db_cases [OF assms, of r] assms
  by (auto simp: serve_snd intro: pg_insert_wf pg_update_wf pg_delete_wf)

lemma serve_create:
  "serve (Post_Todos t) d =
     (case pg_insert (todo_id t) (content t) d of
       (Inl e, d') \<Rightarrow> (internal_error, d')
     | (Inr i, d') \<Rightarrow> (\<lparr>status = 200, body = todo_json \<lparr>todo_id = Some i, content = content t\<rparr>\<rparr>, d'))"
  by (simp add: serve_def dispatch_create split: prod.split sum.split)

lemma serve_next_id_mono:
  assumes "wf_db d"
  shows "next_id d \<le> next_id (snd (serve r d))"
  using dispatch_db_cases [OF assms, of r]
  by (auto simp: serve_snd pg_insert_next_id_le dest: pg_update_Inr pg_delete_Inr)

end
