(* ===== verification/App.thy ===== *)
theory App
  imports Http_App
begin

text \<open>
  The application's lifecycle: \<open>lifespan\<close> (lines 28--32 of
  \<open>src/fastapi_todo/main.py\<close>) prints \<open>Creating tables..\<close> and calls
  \<open>create_db_and_tables\<close> (lines 23--24, \<open>SQLModel.metadata.create_all\<close>),
  which creates the table only if it is absent; the server starts serving
  requests only after the startup part of the lifespan has run. The state
  is the database, the printed lines and the log of answered requests; a
  step is the startup or one request served to completion. The reachable
  states start from any well-formed database (the table may already exist
  from an earlier run) and are closed under steps; the invariants are proved
  by rule induction over them.
\<close>

definition create_db_and_tables :: "db \<Rightarrow> db" where
  "create_db_and_tables d = create_all d"

record app_state =
  started :: bool
  app_db :: db
  stdout :: "string list"
  served :: "(request \<times> http_response) list"

definition init_app :: "db \<Rightarrow> app_state" where
  "init_app d = \<lparr>started = False, app_db = d, stdout = [], served = []\<rparr>"

definition lifespan_startup :: "app_state \<Rightarrow> app_state" where
  "lifespan_startup s =
     s\<lparr>stdout := stdout s @ [''Creating tables..''],
       app_db := create_db_and_tables (app_db s), started := True\<rparr>"

definition handle_request :: "request \<Rightarrow> app_state \<Rightarrow> app_state" where
  "handle_request r s =
     (case serve r (app_db s) of
       (resp, d') \<Rightarrow> s\<lparr>app_db := d', served := served s @ [(r, resp)]\<rparr>)"

inductive app_step :: "app_state \<Rightarrow> app_state \<Rightarrow> bool" where
  startup: "\<not> started s \<Longrightarrow> app_step s (lifespan_startup s)"
| request: "started s \<Longrightarrow> app_step s (handle_request r s)"

inductive reachable :: "app_state \<Rightarrow> bool" where
  init: "wf_db d \<Longrightarrow> reachable (init_app d)"
| step: "reachable s \<Longrightarrow> app_step s t \<Longrightarrow> reachable t"

text \<open>The ids the service handed out for creates whose body had no
  \<open>id\<close>, in the order the answers were sent.\<close>

fun resp_id :: "json \<Rightarrow> int option" where
  "resp_id (JObj ((k, JInt i) # _)) = (if k = ''id'' then Some i else None)"
| "resp_id _ = None"

fun auto_id :: "request \<times> http_response \<Rightarrow> int list" where
  "auto_id (Post_Todos t, resp) =
     (if todo_id t = None \<and> status resp = 200
      then (case resp_id (body resp) of None \<Rightarrow> [] | Some i \<Rightarrow> [i]) else [])"
| "auto_id _ = []"

definition auto_ids :: "(request \<times> http_response) list \<Rightarrow> int list" where
  "auto_ids xs = concat (map auto_id xs)"

definition app_inv :: "app_state \<Rightarrow> bool" where
  "app_inv s \<longleftrightarrow> wf_db (app_db s) \<and>
     (if started s then table (app_db s) \<noteq> None else served s = []) \<and>
     sorted_wrt (<) (auto_ids (served s)) \<and>
     list_all (\<lambda>i. i < next_id (app_db s)) (auto_ids (served s))"

inductive_cases app_step_elim: "app_step s t"

subsection \<open>Startup\<close>

text \<open>\<open>create_db_and_tables\<close> always leaves the table in place, keeps an
  existing table with its rows and sequence, and is idempotent.\<close>

lemma create_db_and_tables_idempotent:
  "table (create_db_and_tables d) \<noteq> None \<and>
   create_db_and_tables (create_db_and_tables d) = create_db_and_tables d \<and>
   (table d \<noteq> None \<longrightarrow> create_db_and_tables d = d)"
  by (auto simp: create_db_and_tables_def create_all_def split: option.split)

subsection \<open>The invariant of the running service\<close>

lemma auto_ids_snoc: "auto_ids (xs @ [x]) = auto_ids xs @ auto_id x"
  by (simp add: auto_ids_def)

lemma app_inv_init: "wf_db d \<Longrightarrow> app_inv (init_app d)"
  by (simp add: app_inv_def init_app_def auto_ids_def)

lemma app_inv_startup:
  "app_inv s \<Longrightarrow> \<not> started s \<Longrightarrow> app_inv (lifespan_startup s)"
  by (auto simp: app_inv_def lifespan_startup_def create_db_and_tables_def
      auto_ids_def create_all_def wf_db_def int4_max_def split: option.split)

lemma auto_id_serve:
  assumes "wf_db d" and "x \<in> set (auto_id (r, fst (serve r d)))"
  shows "x = next_id d \<and> next_id (snd (serve r d)) = x + 1"
proof (cases r)
  case (Post_Todos t)
  have none: "todo_id t = None"
  proof (rule ccontr)
    assume "todo_id t \<noteq> None"
    with assms(2) Post_Todos show False by simp
  qed
  show ?thesis
  proof (cases "pg_insert (todo_id t) (content t) d")
    case (Pair res d')
    show ?thesis
    proof (cases res)
      case (Inl e)
      with Pair Post_Todos assms(2) show ?thesis by (simp add: serve_create internal_error_def)
    next
      case (Inr i)
      with Pair none have ids: "i = next_id d \<and> next_id d' = i + 1"
        using pg_insert_Inr [of None "content t" d i d'] by auto
      have sv: "serve r d = (\<lparr>status = 200, body = todo_json \<lparr>todo_id = Some i, content = content t\<rparr>\<rparr>, d')"
        using Pair Inr Post_Todos by (simp add: serve_create)
      have "x \<in> set (auto_id (Post_Todos t,
          \<lparr>status = 200, body = todo_json \<lparr>todo_id = Some i, content = content t\<rparr>\<rparr>))"
        using assms(2) sv Post_Todos by (simp only: prod.sel)
      with none have "x = i" by (simp add: todo_json_def)
      with ids sv show ?thesis by simp
    qed
  qed
qed (use assms(2) in \<open>simp_all\<close>)

lemma auto_id_single: "auto_id x = [] \<or> (\<exists>i. auto_id x = [i])"
  by (cases x rule: auto_id.cases) (auto split: option.split)

lemma app_inv_request:
  assumes "app_inv s" and "started s"
  shows "app_inv (handle_request r s)"
proof -
  let ?d = "app_db s"
  obtain resp d' where sv: "serve r ?d = (resp, d')" by (cases "serve r ?d")
  have wf: "wf_db ?d" using assms(1) by (simp add: app_inv_def)
  have wf': "wf_db d'" using serve_wf [OF wf, of r] sv by simp
  have mono: "next_id ?d \<le> next_id d'" using serve_next_id_mono [OF wf, of r] sv by simp
  have tab: "table d' \<noteq> None"
  proof -
    have "table ?d \<noteq> None" using assms by (simp add: app_inv_def)
    then show ?thesis
      using dispatch_db_cases [OF wf, of r] sv serve_snd [of r ?d]
      by (auto dest: pg_update_Inr pg_delete_Inr pg_insert_Inl_table
          simp: pg_insert_def Let_def split: if_splits option.splits)
  qed
  have new: "\<forall>x \<in> set (auto_id (r, resp)). x = next_id ?d \<and> next_id d' = x + 1"
    using auto_id_serve [OF wf, of _ r] sv by auto
  have old: "sorted_wrt (<) (auto_ids (served s))" "list_all (\<lambda>i. i < next_id ?d) (auto_ids (served s))"
    using assms(1) by (simp_all add: app_inv_def)
  have "sorted_wrt (<) (auto_ids (served s) @ auto_id (r, resp))"
    using old new auto_id_single [of "(r, resp)"] by (auto simp: sorted_wrt_append list_all_iff)
  moreover have "list_all (\<lambda>i. i < next_id d') (auto_ids (served s) @ auto_id (r, resp))"
    using old new mono by (auto simp: list_all_iff)
  ultimately show ?thesis
    using assms(2) wf' tab sv by (simp add: app_inv_def handle_request_def auto_ids_snoc)
qed

lemma reachable_app_inv: "reachable s \<Longrightarrow> app_inv s"
proof (induction rule: reachable.induct)
  case (init d)
  then show ?case by (rule app_inv_init)
next
  case (step s t)
  from step.hyps(2) step.IH show ?case
    by (cases rule: app_step_elim) (auto intro: app_inv_startup app_inv_request)
qed

lemma started_handle_request_startup: "started (handle_request r (lifespan_startup s))"
  by (simp add: handle_request_def lifespan_startup_def split: prod.split)

lemma reachable_startup_request:
  assumes "wf_db d"
  shows "reachable (handle_request r (lifespan_startup (init_app d)))"
proof -
  have "reachable (lifespan_startup (init_app d))"
    by (rule reachable.step [OF reachable.init [OF assms]])
       (rule app_step.startup, simp add: init_app_def)
  then show ?thesis
    by (rule reachable.step) (rule app_step.request, simp add: lifespan_startup_def)
qed

text \<open>C10: in every reachable state the database is well-formed, and once
  the service has started the table exists, so no request of a running
  service meets a missing table.\<close>

theorem reachable_wf:
  "reachable s \<Longrightarrow> wf_db (app_db s) \<and> (started s \<longrightarrow> table (app_db s) \<noteq> None)"
  by (drule reachable_app_inv) (simp add: app_inv_def split: if_splits)

theorem reachable_wf_witness:
  "wf_db (app_db (handle_request Get_Todos (lifespan_startup (init_app \<lparr>table = None, next_id = 1\<rparr>)))) \<and>
   started (handle_request Get_Todos (lifespan_startup (init_app \<lparr>table = None, next_id = 1\<rparr>))) \<and>
   table (app_db (handle_request Get_Todos (lifespan_startup (init_app \<lparr>table = None, next_id = 1\<rparr>)))) \<noteq> None"
proof -
  let ?s = "handle_request Get_Todos (lifespan_startup (init_app \<lparr>table = None, next_id = 1\<rparr>))"
  have "reachable ?s" by (rule reachable_startup_request) (simp add: wf_db_def)
  moreover have "started ?s" by (rule started_handle_request_startup)
  ultimately show ?thesis using reachable_wf [of ?s] by blast
qed

text \<open>C11: the ids the service answers to creates without \<open>id\<close> are strictly
  increasing in the order of the answers, hence pairwise distinct, and all
  below the sequence's next value: the sequence never hands out an id twice.\<close>

theorem reachable_auto_ids_increasing:
  "reachable s \<Longrightarrow>
   sorted_wrt (<) (auto_ids (served s)) \<and> list_all (\<lambda>i. i < next_id (app_db s)) (auto_ids (served s))"
  by (drule reachable_app_inv) (simp add: app_inv_def)

theorem reachable_auto_ids_increasing_witness:
  "sorted_wrt (<) (auto_ids (served (handle_request (Post_Todos \<lparr>todo_id = None, content = ''a''\<rparr>)
      (lifespan_startup (init_app \<lparr>table = None, next_id = 1\<rparr>))))) \<and>
   list_all (\<lambda>i. i < next_id (app_db (handle_request (Post_Todos \<lparr>todo_id = None, content = ''a''\<rparr>)
      (lifespan_startup (init_app \<lparr>table = None, next_id = 1\<rparr>)))))
     (auto_ids (served (handle_request (Post_Todos \<lparr>todo_id = None, content = ''a''\<rparr>)
      (lifespan_startup (init_app \<lparr>table = None, next_id = 1\<rparr>)))))"
  by (rule reachable_auto_ids_increasing, rule reachable_startup_request) (simp add: wf_db_def)

end
