(* ===== verification/Concurrency.thy ===== *)
theory Concurrency
  imports Http_App
begin

text \<open>
  Concurrent requests. The handlers of \<open>src/fastapi_todo/main.py\<close> are
  plain \<open>def\<close> functions, so FastAPI runs each request in a worker thread,
  with its own \<open>get_session\<close> session, and the requests in flight share the
  one database. Each handler is a sequence of SQL statements, and the
  statements of different requests interleave:
  \<^item> \<open>create_todo\<close> (lines 57--62): \<open>INSERT\<close> and \<open>COMMIT\<close>, then the
    \<open>SELECT\<close> of \<open>session.refresh\<close>;
  \<^item> \<open>update_todo\<close> (lines 73--83): the \<open>SELECT\<close> of line 75, then at
    \<open>session.commit()\<close> the \<open>UPDATE ... WHERE id = old\<close> and \<open>COMMIT\<close>, then
    the refresh;
  \<^item> \<open>delete_todo\<close> (lines 87--94): the \<open>SELECT\<close>, then \<open>DELETE\<close> and
    \<open>COMMIT\<close>;
  \<^item> \<open>read_todos\<close> and \<open>read_root\<close>: one statement, or none.
  The state of a request in flight is a \<open>req_pc\<close>: the statement it
  runs next and what it has loaded so far. Every transaction writes at most
  once and commits right after the write, and PostgreSQL's default
  isolation, READ COMMITTED, lets each statement see the work committed
  before it; so one statement, with the commit that follows it, is one
  atomic step \<^term>\<open>req_step\<close> on the shared database, and a failed
  statement leaves the table as it was (its rollback), the sequence
  advanced. \<^term>\<open>conc_step\<close> runs one step of any request in flight.

  \<^term>\<open>run_alone\<close> runs one request with no other request in between; it
  terminates because every step lowers \<^term>\<open>pc_rank\<close>, the number of
  statements left, and it computes exactly \<^term>\<open>dispatch\<close>, the sequential
  model of the handlers.
\<close>

datatype req_pc =
    Begin request
  | Update_Loaded int todo
  | Delete_Loaded int
  | Refreshing int
  | Answered "exc + pyval"

fun answered :: "req_pc \<Rightarrow> bool" where
  "answered (Answered _) = True"
| "answered _ = False"

text \<open>The \<open>SELECT\<close> of \<open>session.refresh(todo)\<close> after the commit, in a new
  transaction.\<close>

definition refresh_answer :: "int \<Rightarrow> db \<Rightarrow> exc + pyval" where
  "refresh_answer j d =
     (case session_refresh j (open_session d) of Inl e \<Rightarrow> Inl e | Inr t \<Rightarrow> Inr (PyTodo t))"

fun req_step :: "req_pc \<Rightarrow> db \<Rightarrow> req_pc \<times> db" where
  "req_step (Begin Get_Root) d = (Answered (Inr read_root), d)"
| "req_step (Begin (Post_Todos t)) d =
     (case pg_insert (todo_id t) (content t) d of
       (Inl e, d') \<Rightarrow> (Answered (Inl (DBAPIError e)), d')
     | (Inr i, d') \<Rightarrow> (Refreshing i, d'))"
| "req_step (Begin Get_Todos) d = (Answered (fst (read_todos (open_session d))), d)"
| "req_step (Begin (Put_Todo tid u)) d =
     (case pg_select_id tid d of
       Inl e \<Rightarrow> (Answered (Inl (DBAPIError e)), d)
     | Inr None \<Rightarrow> (Answered (Inl (HTTPException 404 ''Todo not found'')), d)
     | Inr (Some r) \<Rightarrow> (Update_Loaded (fst r) (copy_fields (row_todo r) u), d))"
| "req_step (Update_Loaded old obj) d =
     (case pg_update old (todo_id obj) (content obj) d of
       Inl e \<Rightarrow> (Answered (Inl (DBAPIError e)), d)
     | Inr (j, d') \<Rightarrow> (Refreshing j, d'))"
| "req_step (Begin (Delete_Todo tid)) d =
     (case pg_select_id tid d of
       Inl e \<Rightarrow> (Answered (Inl (DBAPIError e)), d)
     | Inr None \<Rightarrow> (Answered (Inl (HTTPException 404 ''Todo not found'')), d)
     | Inr (Some r) \<Rightarrow> (Delete_Loaded (fst r), d))"
| "req_step (Delete_Loaded i) d =
     (case pg_delete i d of
       Inl e \<Rightarrow> (Answered (Inl (DBAPIError e)), d)
     | Inr d' \<Rightarrow> (Answered (Inr (PyDict [(''message'', PyStr ''Todo deleted'')])), d'))"
| "req_step (Refreshing j) d = (Answered (refresh_answer j d), d)"
| "req_step (Answered a) d = (Answered a, d)"

fun pc_rank :: "req_pc \<Rightarrow> nat" where
  "pc_rank (Begin (Put_Todo _ _)) = 3"
| "pc_rank (Begin (Post_Todos _)) = 2"
| "pc_rank (Begin (Delete_Todo _)) = 2"
| "pc_rank (Begin Get_Todos) = 1"
| "pc_rank (Begin Get_Root) = 1"
| "pc_rank (Update_Loaded _ _) = 2"
| "pc_rank (Delete_Loaded _) = 1"
| "pc_rank (Refreshing _) = 1"
| "pc_rank (Answered _) = 0"

text \<open>The requests in flight and the shared database; a step runs the next
  statement of one request that has not been answered.\<close>

inductive conc_step :: "req_pc list \<times> db \<Rightarrow> req_pc list \<times> db \<Rightarrow> bool" where
  run: "i < length ps \<Longrightarrow> \<not> answered (ps ! i) \<Longrightarrow> req_step (ps ! i) d = (p', d') \<Longrightarrow>
        conc_step (ps, d) (ps[i := p'], d')"

text \<open>The HTTP response FastAPI sends for a handler's outcome; \<^term>\<open>serve\<close>
  is \<^term>\<open>dispatch\<close> followed by it.\<close>

definition respond :: "request \<Rightarrow> exc + pyval \<Rightarrow> http_response" where
  "respond r a =
     (case a of
       Inl e \<Rightarrow> error_response e
     | Inr v \<Rightarrow>
         (case serialize_response (route_model r) v of
           None \<Rightarrow> internal_error
         | Some j \<Rightarrow> \<lparr>status = 200, body = j\<rparr>))"

text \<open>The reference: the requests served one after another.\<close>

fun dispatch_seq :: "request list \<Rightarrow> db \<Rightarrow> (exc + pyval) list \<times> db" where
  "dispatch_seq [] d = ([], d)"
| "dispatch_seq (r # rs) d =
     (case dispatch r d of (a, d') \<Rightarrow> (case dispatch_seq rs d' of (as, d'') \<Rightarrow> (a # as, d'')))"

text \<open>Concurrent creates: the ids of the todos a request holds, after its
  insert and in its answer, and the requests that are creates with no
  \<open>id\<close> in their body.\<close>

fun pc_ids :: "req_pc \<Rightarrow> int list" where
  "pc_ids (Refreshing i) = [i]"
| "pc_ids (Answered (Inr (PyTodo t))) = (case todo_id t of Some i \<Rightarrow> [i] | None \<Rightarrow> [])"
| "pc_ids _ = []"

fun auto_create :: "req_pc \<Rightarrow> bool" where
  "auto_create (Begin (Post_Todos t)) = (todo_id t = None)"
| "auto_create (Begin _) = False"
| "auto_create (Update_Loaded _ _) = False"
| "auto_create (Delete_Loaded _) = False"
| "auto_create (Refreshing _) = True"
| "auto_create (Answered _) = True"

text \<open>A schedule of the worker threads: the index of the request that runs
  its next statement, one per step.\<close>

fun run_schedule :: "nat list \<Rightarrow> req_pc list \<times> db \<Rightarrow> req_pc list \<times> db" where
  "run_schedule [] c = c"
| "run_schedule (i # is) (ps, d) =
     (if i < length ps \<and> \<not> answered (ps ! i)
      then (case req_step (ps ! i) d of (p', d') \<Rightarrow> run_schedule is (ps[i := p'], d'))
      else run_schedule is (ps, d))"

inductive_cases conc_step_elim: "conc_step c c'"

lemma req_step_rank:
  "\<not> answered p \<Longrightarrow> pc_rank (fst (req_step p d)) < pc_rank p"
  by (induction p d rule: req_step.induct)
     (auto split: prod.split sum.split option.split)

lemma req_step_measure:
  "(p', d') = req_step p d \<Longrightarrow> \<not> answered p \<Longrightarrow>
   ((p', d'), p, d) \<in> measure (\<lambda>(p, d). pc_rank p)"
  using req_step_rank [of p d] by (metis fst_conv in_measure case_prod_conv)

function run_alone :: "req_pc \<Rightarrow> db \<Rightarrow> (exc + pyval) \<times> db" where
  "run_alone p d =
     (case p of
       Answered a \<Rightarrow> (a, d)
     | _ \<Rightarrow> (case req_step p d of (p', d') \<Rightarrow> run_alone p' d'))"
  by pat_completeness auto
termination
proof (relation "measure (\<lambda>(p, d). pc_rank p)")
  show "wf (measure (\<lambda>(p, d). pc_rank p))" by simp
qed (rule req_step_measure; simp)+

declare run_alone.simps [simp del]

lemma run_alone_Answered [simp]: "run_alone (Answered a) d = (a, d)"
  by (simp add: run_alone.simps)

lemma run_alone_step:
  "\<not> answered p \<Longrightarrow> run_alone p d = (case req_step p d of (p', d') \<Rightarrow> run_alone p' d')"
  by (subst run_alone.simps) (cases p; simp)

lemma refresh_answer_commit:
  "refresh_answer j d' =
     (case session_refresh j (session_commit (s\<lparr>sess_db := d'\<rparr>)) of
       Inl e \<Rightarrow> Inl e | Inr t \<Rightarrow> Inr (PyTodo t))"
  by (simp add: refresh_answer_def session_refresh_def session_simps)

lemma run_alone_create:
  "run_alone (Begin (Post_Todos t)) d = dispatch (Post_Todos t) d"
proof (cases "pg_insert (todo_id t) (content t) d")
  case (Pair r d')
  show ?thesis
  proof (cases r)
    case (Inl e)
    with Pair have "table d' = table d" by (blast dest: pg_insert_Inl_table)
    with Pair Inl show ?thesis
      by (simp add: run_alone_step dispatch.simps get_session_def create_todo_def session_simps)
  next
    case (Inr i)
    with Pair show ?thesis
      by (simp add: run_alone_step dispatch.simps get_session_def create_todo_def session_simps
          Let_def refresh_answer_commit [where s = "open_session d"] split: sum.split)
  qed
qed

lemma run_alone_update:
  "run_alone (Begin (Put_Todo tid u)) d = dispatch (Put_Todo tid u) d"
proof (cases "pg_select_id tid d")
  case (Inl e)
  then show ?thesis
    by (simp add: run_alone_step dispatch.simps get_session_def update_todo_def session_simps)
next
  case (Inr ro)
  show ?thesis
  proof (cases ro)
    case None
    with Inr show ?thesis
      by (simp add: run_alone_step dispatch.simps get_session_def update_todo_def session_simps)
  next
    case (Some r)
    with Inr show ?thesis
      by (simp add: run_alone_step dispatch.simps get_session_def update_todo_def session_simps
          Let_def refresh_answer_commit [where s = "open_session d"] split: sum.split prod.split)
  qed
qed

lemma run_alone_delete:
  "run_alone (Begin (Delete_Todo tid)) d = dispatch (Delete_Todo tid) d"
  by (simp add: run_alone_step dispatch.simps get_session_def delete_todo_def session_simps
      split: sum.split option.split)

lemma run_alone_read_todos:
  "run_alone (Begin Get_Todos) d = dispatch Get_Todos d"
  by (simp add: run_alone_step dispatch.simps get_session_def read_todos_def session_simps
      split: sum.split)

lemma run_alone_Begin: "run_alone (Begin r) d = dispatch r d"
  by (cases r) (simp_all add: run_alone_create run_alone_update run_alone_delete
      run_alone_read_todos run_alone_step dispatch_root)

lemma run_alone_conc:
  "run_alone p d = (a, d') \<Longrightarrow> i < length ps \<Longrightarrow> ps ! i = p \<Longrightarrow>
   conc_step\<^sup>*\<^sup>* (ps, d) (ps[i := Answered a], d')"
proof (induction "pc_rank p" arbitrary: p d ps rule: less_induct)
  case less
  show ?case
  proof (cases "answered p")
    case True
    then obtain b where p: "p = Answered b" by (cases p) simp_all
    with less.prems(1) have "a = b" "d' = d" by simp_all
    with less.prems(3) p have "ps[i := Answered a] = ps" "d' = d"
      using list_update_id [of ps i] by simp_all
    then show ?thesis by simp
  next
    case False
    obtain p1 d1 where st: "req_step p d = (p1, d1)" by fastforce
    have run1: "run_alone p1 d1 = (a, d')"
      using less.prems(1) run_alone_step [OF False, of d] st by simp
    have step: "conc_step (ps, d) (ps[i := p1], d1)"
      using less.prems(2,3) False st by (auto intro: conc_step.run)
    have "pc_rank p1 < pc_rank p" using req_step_rank [OF False, of d] st by simp
    then have "conc_step\<^sup>*\<^sup>* (ps[i := p1], d1) ((ps[i := p1])[i := Answered a], d')"
      by (rule less.hyps) (use run1 less.prems(2) in simp_all)
    with step show ?thesis by simp
  qed
qed

lemma conc_serial:
  "conc_step\<^sup>*\<^sup>* (map Answered as @ map Begin rs, d)
     (map Answered (as @ fst (dispatch_seq rs d)), snd (dispatch_seq rs d))"
proof (induction rs arbitrary: as d)
  case Nil
  then show ?case by simp
next
  case (Cons r rs)
  obtain a d1 where disp: "dispatch r d = (a, d1)" by fastforce
  let ?ps = "map Answered as @ map Begin (r # rs)"
  have "conc_step\<^sup>*\<^sup>* (?ps, d) (?ps[length as := Answered a], d1)"
    using disp by (intro run_alone_conc) (simp_all add: run_alone_Begin nth_append)
  moreover have "?ps[length as := Answered a] = map Answered (as @ [a]) @ map Begin rs"
    by (simp add: list_update_append)
  moreover obtain as' d2 where seq: "dispatch_seq rs d1 = (as', d2)" by fastforce
  moreover note Cons.IH [of "as @ [a]" d1]
  ultimately show ?case
    using disp by (simp del: map_append add: map_append [symmetric])
qed

lemma serve_respond: "serve r d = (respond r (fst (dispatch r d)), snd (dispatch r d))"
  by (simp add: serve_def respond_def split: prod.split sum.split option.split)

lemma run_requests_seq:
  "run_requests rs d = (map2 respond rs (fst (dispatch_seq rs d)), snd (dispatch_seq rs d))"
  by (induction rs arbitrary: d) (simp_all add: serve_respond split: prod.split)

subsection \<open>Invariants of every interleaving\<close>

lemma req_step_create_db:
  "snd (req_step (Begin (Post_Todos t)) d) = snd (pg_insert (todo_id t) (content t) d)"
  by (simp split: prod.split sum.split)

lemma req_step_wf: "wf_db d \<Longrightarrow> wf_db (snd (req_step p d))"
proof (induction p d rule: req_step.induct)
  case (2 t d)
  then show ?case by (simp only: req_step_create_db pg_insert_wf)
next
  case (5 old obj d)
  then show ?case by (auto split: sum.split intro: pg_update_wf)
next
  case (7 i d)
  then show ?case by (auto split: sum.split intro: pg_delete_wf)
qed (simp_all split: sum.split option.split)

lemma req_step_next_id: "next_id d \<le> next_id (snd (req_step p d))"
proof (induction p d rule: req_step.induct)
  case (2 t d)
  then show ?case by (simp only: req_step_create_db pg_insert_next_id_le)
next
  case (5 old obj d)
  then show ?case by (auto split: sum.split dest: pg_update_Inr)
next
  case (7 i d)
  then show ?case by (auto split: sum.split dest: pg_delete_Inr)
qed (simp_all split: sum.split option.split)

lemma conc_step_rank:
  "conc_step (ps, d) (ps', d') \<Longrightarrow> sum_list (map pc_rank ps') < sum_list (map pc_rank ps)"
proof (erule conc_step.cases)
  fix i qs e p' e'
  assume eq: "(ps, d) = (qs, e)" "(ps', d') = (qs[i := p'], e')"
    and i: "i < length qs" and na: "\<not> answered (qs ! i)" and st: "req_step (qs ! i) e = (p', e')"
  have "pc_rank p' < pc_rank (qs ! i)" using req_step_rank [OF na, of e] st by simp
  with sum_list_map_update [OF i, of pc_rank p'] eq show ?thesis by simp
qed

lemma conc_progress:
  assumes "\<not> list_all answered ps"
  shows "\<exists>c'. conc_step (ps, d) c'"
proof -
  obtain i where i: "i < length ps" "\<not> answered (ps ! i)"
    using assms by (auto simp: list_all_length)
  then have "conc_step (ps, d) (ps[i := fst (req_step (ps ! i) d)], snd (req_step (ps ! i) d))"
    by (intro conc_step.run) simp_all
  then show ?thesis by blast
qed

lemma schedule_conc: "conc_step\<^sup>*\<^sup>* c (run_schedule is c)"
proof (induction "is" c rule: run_schedule.induct)
  case (1 c)
  then show ?case by simp
next
  case (2 i "is" ps d)
  show ?case
  proof (cases "i < length ps \<and> \<not> answered (ps ! i)")
    case True
    obtain p' d' where st: "req_step (ps ! i) d = (p', d')" by fastforce
    with True have "conc_step (ps, d) (ps[i := p'], d')" by (blast intro: conc_step.run)
    with True st "2.IH"(1) [OF True st [symmetric]] show ?thesis
      by (simp add: converse_rtranclp_into_rtranclp)
  next
    case False
    have "run_schedule (i # is) (ps, d) = run_schedule is (ps, d)"
      by (simp only: run_schedule.simps if_not_P [OF False])
    with "2.IH"(2) [OF False] show ?thesis by (simp only:)
  qed
qed

lemma refresh_answer_ids: "pc_ids (Answered (refresh_answer j d)) \<in> {[], [j]}"
  by (simp add: refresh_answer_def session_refresh_def pg_select_id_def find_row_map_of row_todo_def
      split: sum.split option.split)

lemma auto_create_pc_step:
  assumes ac: "auto_create p" and na: "\<not> answered p" and st: "req_step p d = (p', d')"
    and own: "set (pc_ids p) \<subseteq> set S" and below: "\<forall>k \<in> set S. k < next_id d"
  shows "auto_create p' \<and> distinct (pc_ids p') \<and> set (pc_ids p') \<inter> set S \<subseteq> set (pc_ids p) \<and>
      next_id d \<le> next_id d' \<and> (\<forall>k \<in> set (pc_ids p'). k < next_id d')"
proof (cases p rule: auto_create.cases)
  case (1 t)
  with ac have t: "todo_id t = None" by simp
  show ?thesis
  proof (cases "pg_insert (todo_id t) (content t) d")
    case (Pair r e)
    show ?thesis
    proof (cases r)
      case (Inl x)
      with 1 Pair st show ?thesis by (auto dest: pg_insert_next_id_mono)
    next
      case (Inr k)
      with Pair t obtain "k = next_id d" "next_id e = k + 1"
        using pg_insert_Inr [of "todo_id t" "content t" d k e] by auto
      with 1 Pair Inr st below show ?thesis by auto
    qed
  qed
next
  case (5 j)
  with st have "p' = Answered (refresh_answer j d)" "d' = d" by auto
  moreover have "j \<in> set S" using 5 own by simp
  ultimately show ?thesis using 5 refresh_answer_ids [of j d] below by auto
qed (use na ac in simp_all)

lemma select_Some_fst:
  "pg_select_id tid d = Inr (Some r) \<Longrightarrow> fst r = tid"
  by (auto simp: pg_select_id_def find_Some_iff split: option.splits)

lemma answered_map: "list_all answered ps \<Longrightarrow> \<exists>as. ps = map Answered as"
proof (induction ps)
  case Nil
  then show ?case by simp
next
  case (Cons p ps)
  then obtain as where "ps = map Answered as" by auto
  moreover obtain a where "p = Answered a" using Cons.prems by (cases p) simp_all
  ultimately have "p # ps = map Answered (a # as)" by simp
  then show ?case by (rule exI)
qed

lemmas run_simps = pg_defs in_int4_def int4_min_def int4_max_def text_ok_def refresh_answer_def
  session_refresh_def open_session_def row_todo_def copy_fields_def todo_dict_def

lemma conc_final_exists: "\<exists>as d'. conc_step\<^sup>*\<^sup>* (ps, d) (map Answered as, d')"
proof (induction "sum_list (map pc_rank ps)" arbitrary: ps d rule: less_induct)
  case less
  show ?case
  proof (cases "list_all answered ps")
    case True
    then obtain as where "ps = map Answered as" by (blast dest: answered_map)
    then show ?thesis by blast
  next
    case False
    obtain c1 where "conc_step (ps, d) c1" using conc_progress [OF False] by blast
    moreover obtain ps1 d1 where "c1 = (ps1, d1)" by fastforce
    ultimately have st: "conc_step (ps, d) (ps1, d1)" by simp
    then have "sum_list (map pc_rank ps1) < sum_list (map pc_rank ps)" by (rule conc_step_rank)
    then obtain as d' where "conc_step\<^sup>*\<^sup>* (ps1, d1) (map Answered as, d')"
      using less.hyps by blast
    with st show ?thesis by (blast intro: converse_rtranclp_into_rtranclp)
  qed
qed

subsection \<open>What interleaving adds: races between requests\<close>

text \<open>C19: an update racing a delete of the same todo answers 500, on any
  table holding the row and for any body whose fields the database accepts.
  The update's \<open>SELECT\<close> finds the row, the delete removes it and commits,
  and the update's \<open>UPDATE ... WHERE id = todo_id\<close> then matches no row:
  SQLAlchemy raises \<open>StaleDataError\<close>, which no handler catches, while the
  delete's answer is sent and its deletion stays committed.\<close>

theorem update_delete_race:
  assumes "table d = Some rs" and "map_of rs tid = Some c0" and "text_ok (content u)"
    and "case todo_id u of None \<Rightarrow> True | Some j \<Rightarrow> in_int4 j"
  shows "run_schedule [0, 1, 1, 0] ([Begin (Put_Todo tid u), Begin (Delete_Todo tid)], d) =
     ([Answered (Inl (DBAPIError StaleData)),
       Answered (Inr (PyDict [(''message'', PyStr ''Todo deleted'')]))],
      d\<lparr>table := Some (filter (\<lambda>r. fst r \<noteq> tid) rs)\<rparr>)"
proof -
  have "tid \<notin> set (row_ids (filter (\<lambda>r. fst r \<noteq> tid) rs))" by auto
  then have "pg_update tid (todo_id u) (content u) (d\<lparr>table := Some (filter (\<lambda>r. fst r \<noteq> tid) rs)\<rparr>) =
      Inl StaleData"
    using assms(3,4) by (auto simp: pg_update_def split: option.split)
  with assms(1,2) show ?thesis by (simp add: pg_select_id_map copy_fields_all pg_delete_def)
qed

theorem update_delete_race_witness:
  "run_schedule [0, 1, 1, 0]
     ([Begin (Put_Todo 1 \<lparr>todo_id = Some 1, content = ''b''\<rparr>), Begin (Delete_Todo 1)],
      \<lparr>table = Some [(1, ''a'')], next_id = 2\<rparr>) =
   ([Answered (Inl (DBAPIError StaleData)),
     Answered (Inr (PyDict [(''message'', PyStr ''Todo deleted'')]))],
    \<lparr>table = Some [], next_id = 2\<rparr>)"
  using update_delete_race [of "\<lparr>table = Some [(1, ''a'')], next_id = 2\<rparr>" "[(1, ''a'')]" 1 "''a''"
      "\<lparr>todo_id = Some 1, content = ''b''\<rparr>"]
  by (simp add: text_ok_def in_int4_def int4_min_def int4_max_def)

text \<open>C20: a create racing a delete of the id it is about to get answers 500
  although its row was inserted and committed, on any table where the next
  sequence value is free: the delete removes the new row between the
  create's \<open>COMMIT\<close> and its \<open>session.refresh\<close>, which then finds no row
  (\<open>ObjectDeletedError\<close>). The table ends as it began, and the sequence has
  moved on.\<close>

theorem create_delete_race:
  assumes "table d = Some rs" and "next_id d \<notin> fst ` set rs" and "next_id d \<le> int4_max"
    and "text_ok c"
  shows "run_schedule [0, 1, 1, 0]
      ([Begin (Post_Todos \<lparr>todo_id = None, content = c\<rparr>), Begin (Delete_Todo (next_id d))], d) =
     ([Answered (Inl ObjectDeletedError),
       Answered (Inr (PyDict [(''message'', PyStr ''Todo deleted'')]))],
      d\<lparr>next_id := next_id d + 1\<rparr>)"
proof -
  have "filter (\<lambda>r. fst r \<noteq> next_id d) rs = rs" using assms(2) by (induction rs) auto
  moreover have "map_of rs (next_id d) = None" using assms(2) by (simp add: map_of_eq_None_iff)
  ultimately show ?thesis using assms
    by (simp add: pg_insert_def Let_def pg_select_id_map pg_delete_def refresh_answer_def
        session_refresh_def open_session_def map_add_def)
qed

theorem create_delete_race_witness:
  "run_schedule [0, 1, 1, 0]
     ([Begin (Post_Todos \<lparr>todo_id = None, content = ''a''\<rparr>), Begin (Delete_Todo 1)],
      \<lparr>table = Some [], next_id = 1\<rparr>) =
   ([Answered (Inl ObjectDeletedError),
     Answered (Inr (PyDict [(''message'', PyStr ''Todo deleted'')]))],
    \<lparr>table = Some [], next_id = 2\<rparr>)"
  using create_delete_race [of "\<lparr>table = Some [], next_id = 1\<rparr>" "[]" "''a''"]
  by (simp add: text_ok_def int4_max_def)



end
