(* ===== verification/Serializability.thy ===== *)
theory Serializability
  imports Concurrency
begin

text \<open>
  Requests on different todos do not interfere. A PUT whose body keeps the
  path's id and a DELETE each read and write only the row of their path's
  id, and \<open>GET /\<close> touches nothing; when the requests in flight are of these
  kinds and name pairwise different ids, any two steps of different requests
  commute (\<^term>\<open>req_step\<close> on one id neither sees nor changes another id's
  row). With termination this makes the final configuration the same for
  every interleaving, and so equal to serving the requests one after another.
  \<^term>\<open>row_view\<close> is what a step on an id sees of the database;
  \<^term>\<open>pc_key\<close> is the id a request in flight works on, \<^term>\<open>keyed\<close> the
  kinds of request this holds for, and \<^term>\<open>disjoint_ok\<close> the condition on a
  configuration.
\<close>

definition row_view :: "int \<Rightarrow> db \<Rightarrow> string option option" where
  "row_view k d = map_option (\<lambda>rs. map_of rs k) (table d)"

fun pc_key :: "req_pc \<Rightarrow> int list" where
  "pc_key (Begin (Put_Todo tid u)) = [tid]"
| "pc_key (Begin (Delete_Todo tid)) = [tid]"
| "pc_key (Update_Loaded old obj) = [old]"
| "pc_key (Delete_Loaded i) = [i]"
| "pc_key (Refreshing j) = [j]"
| "pc_key _ = []"

fun keyed :: "req_pc \<Rightarrow> bool" where
  "keyed (Begin (Put_Todo tid u)) = (todo_id u = Some tid)"
| "keyed (Begin (Delete_Todo _)) = True"
| "keyed (Begin Get_Root) = True"
| "keyed (Begin _) = False"
| "keyed (Update_Loaded old obj) = (todo_id obj = Some old)"
| "keyed (Delete_Loaded _) = True"
| "keyed (Refreshing _) = True"
| "keyed (Answered _) = True"

definition disjoint_ok :: "req_pc list \<Rightarrow> bool" where
  "disjoint_ok ps \<longleftrightarrow> list_all keyed ps \<and> distinct (concat (map pc_key ps))"

subsection \<open>Row operations on different ids commute\<close>

text \<open>The effect on the rows of an \<open>UPDATE\<close> that keeps the id, and of a
  \<open>DELETE\<close>.\<close>

definition rewrite_row :: "int \<Rightarrow> string \<Rightarrow> row list \<Rightarrow> row list" where
  "rewrite_row k c rs = map (\<lambda>r. if fst r = k then (k, c) else r) rs"

definition drop_row :: "int \<Rightarrow> row list \<Rightarrow> row list" where
  "drop_row k rs = filter (\<lambda>r. fst r \<noteq> k) rs"

lemma ids_rewrite_row_same [simp]: "fst ` set (rewrite_row k c rs) = fst ` set rs"
  by (induction rs) (auto simp: rewrite_row_def)

lemma ids_drop_row [simp]: "fst ` set (drop_row k rs) = fst ` set rs - {k}"
  by (auto simp: drop_row_def)

lemma map_of_rewrite_other:
  "a \<noteq> k \<Longrightarrow> map_of (rewrite_row k c rs) a = map_of rs a"
  by (induction rs) (auto simp: rewrite_row_def)

lemma map_of_drop_other: "a \<noteq> k \<Longrightarrow> map_of (drop_row k rs) a = map_of rs a"
  by (simp add: drop_row_def map_of_filter_id)

lemma rewrite_rewrite_commute:
  "a \<noteq> b \<Longrightarrow> rewrite_row a c (rewrite_row b e rs) = rewrite_row b e (rewrite_row a c rs)"
  by (induction rs) (auto simp: rewrite_row_def)

lemma drop_rewrite_commute:
  "drop_row b (rewrite_row a c rs) = rewrite_row a c (drop_row b rs)"
  by (induction rs) (auto simp: rewrite_row_def drop_row_def)

lemma drop_drop_commute: "drop_row a (drop_row b rs) = drop_row b (drop_row a rs)"
  by (induction rs) (auto simp: drop_row_def)

subsection \<open>A step on one id, seen from another\<close>

lemma db_update_loaded:
  "todo_id obj = Some old \<Longrightarrow>
   snd (req_step (Update_Loaded old obj) d) =
     (case table d of
       None \<Rightarrow> d
     | Some rs \<Rightarrow>
         if text_ok (content obj) \<and> in_int4 old \<and> old \<in> fst ` set rs
         then d\<lparr>table := Some (rewrite_row old (content obj) rs)\<rparr>
         else d)"
  by (simp add: pg_update_def rewrite_row_def split: option.split)

lemma db_delete_loaded:
  "snd (req_step (Delete_Loaded b) d) = d\<lparr>table := map_option (drop_row b) (table d)\<rparr>"
  by (simp add: pg_delete_def drop_row_def split: option.split)

lemma db_read_only:
  "keyed p \<Longrightarrow> (\<forall>old obj. p \<noteq> Update_Loaded old obj) \<Longrightarrow> (\<forall>b. p \<noteq> Delete_Loaded b) \<Longrightarrow>
   snd (req_step p d) = d"
  by (cases p rule: keyed.cases) (simp_all split: sum.split option.split)

lemma same_row_same_ids:
  "map_of rs k = map_of rs' k \<Longrightarrow> (k \<in> fst ` set rs) = (k \<in> fst ` set rs')"
  by (metis map_of_eq_None_iff)

lemma row_view_None: "row_view k d = None \<longleftrightarrow> table d = None"
  by (simp add: row_view_def)

lemma select_view:
  "row_view k d = row_view k d' \<Longrightarrow> pg_select_id k d = pg_select_id k d'"
  by (cases "table d"; cases "table d'") (simp_all add: row_view_def pg_select_id_def find_row_map_of)

lemma update_view:
  assumes "row_view k d = row_view k d'"
  shows "map_sum id fst (pg_update k (Some k) c d) = map_sum id fst (pg_update k (Some k) c d')"
proof (cases "table d")
  case None
  with assms show ?thesis by (simp add: row_view_def pg_update_def)
next
  case (Some rs)
  with assms obtain rs' where rs': "table d' = Some rs'" "map_of rs k = map_of rs' k"
    by (cases "table d'") (auto simp: row_view_def)
  from rs'(2) have "(k \<in> fst ` set rs) = (k \<in> fst ` set rs')" by (rule same_row_same_ids)
  with Some rs' show ?thesis by (simp add: pg_update_def)
qed

lemma delete_view:
  "row_view k d = row_view k d' \<Longrightarrow> map_sum id (\<lambda>_. ()) (pg_delete k d) = map_sum id (\<lambda>_. ()) (pg_delete k d')"
  by (cases "table d"; cases "table d'") (simp_all add: row_view_def pg_delete_def)

lemma answer_update_loaded:
  "fst (req_step (Update_Loaded old obj) d) =
     (case map_sum id fst (pg_update old (todo_id obj) (content obj) d) of
       Inl e \<Rightarrow> Answered (Inl (DBAPIError e)) | Inr j \<Rightarrow> Refreshing j)"
  by (simp split: sum.split prod.split)

lemma answer_delete_loaded:
  "fst (req_step (Delete_Loaded b) d) =
     (case map_sum id (\<lambda>_. ()) (pg_delete b d) of
       Inl e \<Rightarrow> Answered (Inl (DBAPIError e))
     | Inr _ \<Rightarrow> Answered (Inr (PyDict [(''message'', PyStr ''Todo deleted'')])))"
  by (simp split: sum.split)

lemma step_sees_own_row:
  assumes "keyed p" and "\<forall>k \<in> set (pc_key p). row_view k d = row_view k d'"
  shows "fst (req_step p d) = fst (req_step p d')"
  using assms
proof (cases p rule: keyed.cases)
  case (1 tid u)
  with assms(2) have "pg_select_id tid d = pg_select_id tid d'" by (intro select_view) simp
  with 1 show ?thesis by (simp split: sum.split option.split)
next
  case (2 tid)
  with assms(2) have "pg_select_id tid d = pg_select_id tid d'" by (intro select_view) simp
  with 2 show ?thesis by (simp split: sum.split option.split)
next
  case (5 old obj)
  with assms have "map_sum id fst (pg_update old (todo_id obj) (content obj) d) =
      map_sum id fst (pg_update old (todo_id obj) (content obj) d')"
    by (simp only: keyed.simps) (intro update_view, simp)
  then show ?thesis by (simp only: 5 answer_update_loaded)
next
  case (6 b)
  with assms(2) have "map_sum id (\<lambda>_. ()) (pg_delete b d) = map_sum id (\<lambda>_. ()) (pg_delete b d')"
    by (intro delete_view) simp
  then show ?thesis by (simp only: 6 answer_delete_loaded)
next
  case (7 j)
  with assms(2) have "pg_select_id j d = pg_select_id j d'" by (intro select_view) simp
  with 7 show ?thesis by (simp add: refresh_answer_def session_refresh_def open_session_def)
qed simp_all

lemma step_keeps_other_rows:
  assumes "keyed p" and "a \<notin> set (pc_key p)"
  shows "row_view a (snd (req_step p d)) = row_view a d"
proof (cases p rule: keyed.cases)
  case (5 old obj)
  with assms show ?thesis
    by (simp del: req_step.simps add: db_update_loaded row_view_def map_of_rewrite_other
        split: option.split)
next
  case (6 b)
  with assms show ?thesis
    by (simp del: req_step.simps add: db_delete_loaded row_view_def map_of_drop_other
        option.map_comp comp_def)
qed (use assms(1) in \<open>simp_all split: sum.split option.split\<close>)

lemma keyed_write_or_read:
  "keyed p \<Longrightarrow> (\<forall>d. snd (req_step p d) = d) \<or>
     (\<exists>old obj. p = Update_Loaded old obj \<and> todo_id obj = Some old) \<or> (\<exists>b. p = Delete_Loaded b)"
  by (cases p rule: keyed.cases) (simp_all split: sum.split option.split)

lemma keyed_cases [consumes 1, case_names read update delete]:
  assumes "keyed p"
  obtains (read) "\<And>d. snd (req_step p d) = d"
    | (update) old obj where "p = Update_Loaded old obj" "todo_id obj = Some old"
    | (delete) b where "p = Delete_Loaded b"
  using keyed_write_or_read [OF assms] that by blast

lemma update_update_commute:
  assumes "todo_id o1 = Some a" "todo_id o2 = Some b" "a \<noteq> b"
  shows "snd (req_step (Update_Loaded b o2) (snd (req_step (Update_Loaded a o1) d))) =
         snd (req_step (Update_Loaded a o1) (snd (req_step (Update_Loaded b o2) d)))"
  using assms
  by (cases "table d") (auto simp del: req_step.simps simp add: db_update_loaded rewrite_rewrite_commute)

lemma update_delete_commute:
  assumes "todo_id o1 = Some a" "a \<noteq> b"
  shows "snd (req_step (Delete_Loaded b) (snd (req_step (Update_Loaded a o1) d))) =
         snd (req_step (Update_Loaded a o1) (snd (req_step (Delete_Loaded b) d)))"
  using assms
  by (cases "table d")
     (auto simp del: req_step.simps simp add: db_update_loaded db_delete_loaded drop_rewrite_commute)

lemma delete_delete_commute:
  "snd (req_step (Delete_Loaded b) (snd (req_step (Delete_Loaded a) d))) =
   snd (req_step (Delete_Loaded a) (snd (req_step (Delete_Loaded b) d)))"
  by (simp del: req_step.simps add: db_delete_loaded option.map_comp comp_def drop_drop_commute)

lemma step_db_commute:
  assumes "keyed p" and "keyed q" and "set (pc_key p) \<inter> set (pc_key q) = {}"
  shows "snd (req_step q (snd (req_step p d))) = snd (req_step p (snd (req_step q d)))"
  using assms(1)
proof (cases rule: keyed_cases)
  case read
  then show ?thesis by (simp only:)
next
  case p: (update a o1)
  show ?thesis
    using assms(2)
  proof (cases rule: keyed_cases)
    case read
    then show ?thesis by (simp only:)
  next
    case (update b o2)
    with p assms(3) show ?thesis
      using update_update_commute [of o1 a o2 b d] by (simp del: req_step.simps)
  next
    case (delete b)
    with p assms(3) show ?thesis
      using update_delete_commute [of o1 a b d] by (simp del: req_step.simps)
  qed
next
  case p: (delete a)
  show ?thesis
    using assms(2)
  proof (cases rule: keyed_cases)
    case read
    then show ?thesis by (simp only:)
  next
    case (update b o2)
    with p assms(3) show ?thesis
      using update_delete_commute [of o2 b a d] by (simp del: req_step.simps)
  next
    case (delete b)
    with p show ?thesis using delete_delete_commute [of b a d] by (simp del: req_step.simps)
  qed
qed

lemma step_keyed:
  "keyed p \<Longrightarrow> keyed (fst (req_step p d)) \<and> set (pc_key (fst (req_step p d))) \<subseteq> set (pc_key p)"
  by (cases p rule: keyed.cases)
     (auto simp: copy_fields_all dest: select_Some_fst pg_update_Inr split: sum.split option.split)

lemma distinct_pc_key: "distinct (pc_key p)"
  by (cases p rule: pc_key.cases) simp_all

subsection \<open>The diamond and the unique final configuration\<close>

lemma conc_step_disjoint_ok:
  assumes "conc_step (ps, d) (ps', d')" and "disjoint_ok ps"
  shows "disjoint_ok ps'"
  using assms(1)
proof (cases rule: conc_step.cases)
  case (run i p')
  have k: "keyed (ps ! i)" using assms(2) run(2) by (simp add: disjoint_ok_def list_all_length)
  then have new: "keyed p'" "set (pc_key p') \<subseteq> set (pc_key (ps ! i))"
    using step_keyed [OF k, of d] run(4) by simp_all
  have "list_all keyed (ps[i := p'])"
    using assms(2) new(1) set_update_subset_insert [of ps i p'] by (auto simp: disjoint_ok_def list_all_iff)
  moreover have "distinct (concat (map pc_key (ps[i := p'])))"
    using assms(2) new(2) run(2) distinct_pc_key [of p']
    by (intro distinct_concat_map_update) (auto simp: disjoint_ok_def)
  ultimately show ?thesis using run(1) by (simp add: disjoint_ok_def)
qed

lemma conc_reach_disjoint_ok:
  "conc_step\<^sup>*\<^sup>* (ps, d) (ps', d') \<Longrightarrow> disjoint_ok ps \<Longrightarrow> disjoint_ok ps'"
  by (induction rule: rtranclp_induct2) (auto intro: conc_step_disjoint_ok)

lemma conc_diamond:
  assumes "disjoint_ok ps" and "conc_step (ps, d) c1" and "conc_step (ps, d) c2" and "c1 \<noteq> c2"
  shows "\<exists>c3. conc_step c1 c3 \<and> conc_step c2 c3"
proof -
  obtain i p1 d1 where s1: "c1 = (ps[i := p1], d1)" "i < length ps" "\<not> answered (ps ! i)"
      "req_step (ps ! i) d = (p1, d1)"
    using assms(2) by (cases rule: conc_step.cases) blast
  obtain j p2 d2 where s2: "c2 = (ps[j := p2], d2)" "j < length ps" "\<not> answered (ps ! j)"
      "req_step (ps ! j) d = (p2, d2)"
    using assms(3) by (cases rule: conc_step.cases) blast
  have ij: "i \<noteq> j" using assms(4) s1 s2 by auto
  have ki: "keyed (ps ! i)" and kj: "keyed (ps ! j)"
    using assms(1) s1(2) s2(2) by (simp_all add: disjoint_ok_def list_all_length)
  have disj: "set (pc_key (ps ! i)) \<inter> set (pc_key (ps ! j)) = {}"
    using assms(1) s1(2) s2(2) ij by (simp add: disjoint_ok_def distinct_concat_map_disjoint)
  have "\<forall>k \<in> set (pc_key (ps ! j)). row_view k d1 = row_view k d"
    using step_keeps_other_rows [OF ki, of _ d] s1(4) disj by auto
  then have a2: "fst (req_step (ps ! j) d1) = p2"
    using step_sees_own_row [OF kj, of d1 d] s2(4) by simp
  have "\<forall>k \<in> set (pc_key (ps ! i)). row_view k d2 = row_view k d"
    using step_keeps_other_rows [OF kj, of _ d] s2(4) disj by auto
  then have a1: "fst (req_step (ps ! i) d2) = p1"
    using step_sees_own_row [OF ki, of d2 d] s1(4) by simp
  let ?d3 = "snd (req_step (ps ! j) d1)"
  have d3: "snd (req_step (ps ! i) d2) = ?d3"
    using step_db_commute [OF kj ki, of d] disj s1(4) s2(4) by (simp add: Int_commute)
  have "conc_step c1 ((ps[i := p1])[j := p2], ?d3)"
    unfolding s1(1) using s2(2,3) ij a2 by (intro conc_step.run) (simp_all add: prod_eq_iff)
  moreover have "conc_step c2 ((ps[j := p2])[i := p1], ?d3)"
    unfolding s2(1) using s1(2,3) ij a1 d3 by (intro conc_step.run) (simp_all add: prod_eq_iff)
  moreover have "(ps[j := p2])[i := p1] = (ps[i := p1])[j := p2]" by (rule sym, rule list_update_swap [OF ij])
  ultimately show ?thesis by auto
qed

lemma answered_no_step:
  "list_all answered ps \<Longrightarrow> \<not> conc_step (ps, d) c"
  by (auto elim: conc_step.cases simp: list_all_length)

lemma conc_unique_final:
  "disjoint_ok ps \<Longrightarrow> conc_step\<^sup>*\<^sup>* (ps, d) n1 \<Longrightarrow> conc_step\<^sup>*\<^sup>* (ps, d) n2 \<Longrightarrow>
   list_all answered (fst n1) \<Longrightarrow> list_all answered (fst n2) \<Longrightarrow> n1 = n2"
proof (induction "sum_list (map pc_rank ps)" arbitrary: ps d n1 n2 rule: less_induct)
  case less
  show ?case
  proof (cases "list_all answered ps")
    case True
    then have "n1 = (ps, d)" "n2 = (ps, d)"
      using less.prems(2,3) answered_no_step [OF True, of d]
      by (auto elim: converse_rtranclpE)
    then show ?thesis by simp
  next
    case False
    have step_of: "\<exists>c. conc_step (ps, d) c \<and> conc_step\<^sup>*\<^sup>* c n"
      if "conc_step\<^sup>*\<^sup>* (ps, d) n" "list_all answered (fst n)" for n
      using that False by (cases rule: converse_rtranclpE) auto
    obtain ps1 d1 where c1: "conc_step (ps, d) (ps1, d1)" "conc_step\<^sup>*\<^sup>* (ps1, d1) n1"
      using step_of [OF less.prems(2,4)] by auto
    obtain ps2 d2 where c2: "conc_step (ps, d) (ps2, d2)" "conc_step\<^sup>*\<^sup>* (ps2, d2) n2"
      using step_of [OF less.prems(3,5)] by auto
    have ok1: "disjoint_ok ps1" using c1(1) less.prems(1) by (rule conc_step_disjoint_ok)
    have ok2: "disjoint_ok ps2" using c2(1) less.prems(1) by (rule conc_step_disjoint_ok)
    have r1: "sum_list (map pc_rank ps1) < sum_list (map pc_rank ps)" using c1(1) by (rule conc_step_rank)
    have r2: "sum_list (map pc_rank ps2) < sum_list (map pc_rank ps)" using c2(1) by (rule conc_step_rank)
    show ?thesis
    proof (cases "(ps1, d1) = (ps2, d2)")
      case True
      with c1 c2 less.prems(4,5) ok1 r1 show ?thesis by (intro less.hyps) auto
    next
      case False
      then obtain c3 where c3: "conc_step (ps1, d1) c3" "conc_step (ps2, d2) c3"
        using conc_diamond [OF less.prems(1) c1(1) c2(1)] by blast
      obtain as3 d3 where n3: "conc_step\<^sup>*\<^sup>* c3 (map Answered as3, d3)"
        using conc_final_exists [of "fst c3" "snd c3"] by auto
      have fin3: "list_all answered (fst (map Answered as3, d3))" by (simp add: list_all_iff)
      have "n1 = (map Answered as3, d3)"
        using c1(2) c3(1) n3 less.prems(4) ok1 r1 fin3
        by (intro less.hyps [of ps1 d1]) (auto intro: converse_rtranclp_into_rtranclp)
      moreover have "n2 = (map Answered as3, d3)"
        using c2(2) c3(2) n3 less.prems(5) ok2 r2 fin3
        by (intro less.hyps [of ps2 d2]) (auto intro: converse_rtranclp_into_rtranclp)
      ultimately show ?thesis by simp
    qed
  qed
qed

subsection \<open>Requests on different todos are serializable\<close>

text \<open>C23: when the requests in flight are PUTs whose body keeps the path's
  id, DELETEs and \<open>GET /\<close>, on pairwise different ids, every interleaving
  that answers them all sends exactly the responses, and leaves exactly the
  database, of serving them one after another in the order they arrived.\<close>

theorem disjoint_requests_serializable:
  assumes "conc_step\<^sup>*\<^sup>* (map Begin rs, d) (map Answered as, d')"
    and "disjoint_ok (map Begin rs)"
  shows "map2 respond rs as = fst (run_requests rs d) \<and> d' = snd (run_requests rs d)"
proof -
  have serial: "conc_step\<^sup>*\<^sup>* (map Begin rs, d)
      (map Answered (fst (dispatch_seq rs d)), snd (dispatch_seq rs d))"
    using conc_serial [of "[]" rs d] by simp
  have "(map Answered as, d') = (map Answered (fst (dispatch_seq rs d)), snd (dispatch_seq rs d))"
    using assms(2) assms(1) serial by (rule conc_unique_final) (simp_all add: list_all_iff)
  then have "as = fst (dispatch_seq rs d)" "d' = snd (dispatch_seq rs d)"
    by (simp_all add: inj_map_eq_map inj_def)
  then show ?thesis by (simp add: run_requests_seq)
qed

theorem disjoint_requests_serializable_witness:
  "map2 respond [Put_Todo 1 \<lparr>todo_id = Some 1, content = ''b''\<rparr>, Delete_Todo 2]
     [Inr (PyTodo \<lparr>todo_id = Some 1, content = ''b''\<rparr>),
      Inr (PyDict [(''message'', PyStr ''Todo deleted'')])] =
   fst (run_requests [Put_Todo 1 \<lparr>todo_id = Some 1, content = ''b''\<rparr>, Delete_Todo 2]
     \<lparr>table = Some [(1, ''a''), (2, ''c'')], next_id = 3\<rparr>) \<and>
   \<lparr>table = Some [(1, ''b'')], next_id = 3\<rparr> =
   snd (run_requests [Put_Todo 1 \<lparr>todo_id = Some 1, content = ''b''\<rparr>, Delete_Todo 2]
     \<lparr>table = Some [(1, ''a''), (2, ''c'')], next_id = 3\<rparr>)"
proof -
  let ?rs = "[Put_Todo 1 \<lparr>todo_id = Some 1, content = ''b''\<rparr>, Delete_Todo 2]"
  let ?d = "\<lparr>table = Some [(1, ''a''), (2, ''c'')], next_id = 3\<rparr>"
  have "run_schedule [0, 1, 0, 1, 0] (map Begin ?rs, ?d) =
     (map Answered [Inr (PyTodo \<lparr>todo_id = Some 1, content = ''b''\<rparr>),
        Inr (PyDict [(''message'', PyStr ''Todo deleted'')])],
      \<lparr>table = Some [(1, ''b'')], next_id = 3\<rparr>)"
    by (simp add: run_simps)
  then have run: "conc_step\<^sup>*\<^sup>* (map Begin ?rs, ?d)
     (map Answered [Inr (PyTodo \<lparr>todo_id = Some 1, content = ''b''\<rparr>),
        Inr (PyDict [(''message'', PyStr ''Todo deleted'')])],
      \<lparr>table = Some [(1, ''b'')], next_id = 3\<rparr>)"
    using schedule_conc [of "(map Begin ?rs, ?d)" "[0, 1, 0, 1, 0]"] by simp
  have "disjoint_ok (map Begin ?rs)" by (simp add: disjoint_ok_def)
  with run show ?thesis by (rule disjoint_requests_serializable)
qed

end
