(* ===== verification/Http_Request.thy ===== *)
theory Http_Request
  imports Http_App
begin

text \<open>
  The request side of the HTTP layer: how a request on the wire reaches a
  handler of \<open>src/fastapi_todo/main.py\<close>. The route decorators (lines
  50--87) give the path templates and methods; Starlette's router matches
  the path, answers 405 when the path matches with another method, answers
  404 or a 307 redirect to the same path with its trailing slash toggled
  when nothing matches. FastAPI then binds the handler's parameters
  (\<open>todo_id: int\<close> from the path, \<open>todo: Todo\<close> from the JSON body) with
  pydantic's lax validation and answers 422 with the list of errors when one
  fails, before the handler and any SQL statement run. None of this is code
  of the repository except the decorators, the signatures and the field
  types of \<open>Todo\<close> (lines 9--11); the rest is modelled from the documented
  behaviour of FastAPI, Starlette and pydantic 2:
  \<^item> a string is accepted for an \<open>int\<close> when, after stripping whitespace,
    it is at most 4300 characters of an optional sign and decimal digits,
    possibly followed by a decimal point and zeros (\<^term>\<open>str_as_int\<close>);
  \<^item> a JSON object with repeated keys keeps the last value, as Python's
    \<open>json\<close> module does; a body that is absent or \<open>null\<close> is missing.
  The client side, \<^term>\<open>render\<close>, writes a request of the model as Python
  clients do: the id in the path as \<open>str(id)\<close> (\<^term>\<open>int_str\<close>), the
  body as the JSON of the todo.
\<close>

subsection \<open>Integers as text\<close>

definition py_whitespace :: "char list" where
  "py_whitespace = [CHR '' '', CHR 0x09, CHR 0x0A, CHR 0x0B, CHR 0x0C, CHR 0x0D]"

definition strip_ws :: "string \<Rightarrow> string" where
  "strip_ws s =
     rev (dropWhile (\<lambda>c. c \<in> set py_whitespace) (rev (dropWhile (\<lambda>c. c \<in> set py_whitespace) s)))"

definition is_digit :: "char \<Rightarrow> bool" where
  "is_digit c \<longleftrightarrow> 48 \<le> (of_char c :: nat) \<and> (of_char c :: nat) \<le> 57"

definition digits_nat :: "string \<Rightarrow> nat" where
  "digits_nat ds = foldl (\<lambda>n c. 10 * n + (of_char c - 48)) 0 ds"

definition unsigned :: "string \<Rightarrow> nat option" where
  "unsigned ds = (if ds \<noteq> [] \<and> list_all is_digit ds then Some (digits_nat ds) else None)"

definition parse_digits :: "string \<Rightarrow> int option" where
  "parse_digits s =
     (case s of
       [] \<Rightarrow> None
     | c # ds \<Rightarrow>
         if c = CHR ''-'' then map_option (\<lambda>n. - int n) (unsigned ds)
         else if c = CHR ''+'' then map_option int (unsigned ds)
         else map_option int (unsigned s))"

definition strip_decimal_zeros :: "string \<Rightarrow> string option" where
  "strip_decimal_zeros s =
     (if CHR ''.'' \<in> set s \<and> list_all (\<lambda>c. c = CHR ''0'') (tl (dropWhile (\<lambda>c. c \<noteq> CHR ''.'') s))
      then Some (takeWhile (\<lambda>c. c \<noteq> CHR ''.'') s) else None)"

definition str_as_int :: "string \<Rightarrow> int option" where
  "str_as_int s =
     (let t = strip_ws s in
      if 4300 < length t then None
      else case parse_digits t of
        Some i \<Rightarrow> Some i
      | None \<Rightarrow> (case strip_decimal_zeros t of Some t' \<Rightarrow> parse_digits t' | None \<Rightarrow> None))"

text \<open>Python's \<open>str\<close> of an integer, in decimal.\<close>

fun nat_str :: "nat \<Rightarrow> string" where
  "nat_str n = (if n < 10 then [char_of (48 + n)] else nat_str (n div 10) @ [char_of (48 + n mod 10)])"

definition int_str :: "int \<Rightarrow> string" where
  "int_str i = (if i < 0 then CHR ''-'' # nat_str (nat (- i)) else nat_str (nat i))"

declare nat_str.simps [simp del]

lemma nat_str_digits: "nat_str n \<noteq> [] \<and> list_all is_digit (nat_str n)"
proof (induction n rule: nat_str.induct)
  case (1 n)
  have dig: "is_digit (char_of (48 + k))" if "k < 10" for k :: nat
    using that by (simp add: is_digit_def of_char_of)
  show ?case
    unfolding nat_str.simps [of n] using 1 dig [of n] dig [of "n mod 10"] by simp
qed

lemma digits_nat_snoc: "digits_nat (ds @ [c]) = 10 * digits_nat ds + (of_char c - 48)"
  by (simp add: digits_nat_def)

lemma digits_nat_str: "digits_nat (nat_str n) = n"
proof (induction n rule: nat_str.induct)
  case (1 n)
  then show ?case
    unfolding nat_str.simps [of n] by (simp add: digits_nat_snoc) (simp add: digits_nat_def of_char_of)
qed

lemma dropWhile_none: "\<forall>x \<in> set xs. \<not> P x \<Longrightarrow> dropWhile P xs = xs"
  by (induction xs) auto

lemma digit_not_ws: "is_digit c \<Longrightarrow> c \<notin> set py_whitespace"
  by (auto simp: is_digit_def py_whitespace_def)

lemma strip_ws_id: "\<forall>c \<in> set s. c \<notin> set py_whitespace \<Longrightarrow> strip_ws s = s"
  by (simp add: strip_ws_def dropWhile_none)

lemma nat_str_chars: "\<forall>c \<in> set (nat_str n). c \<notin> set py_whitespace"
  using nat_str_digits [of n] by (auto simp: list_all_iff dest: digit_not_ws)

lemma int_str_chars: "\<forall>c \<in> set (int_str i). c \<notin> set py_whitespace"
proof -
  have "CHR ''-'' \<notin> set py_whitespace" by (simp add: py_whitespace_def)
  then show ?thesis using nat_str_chars by (simp add: int_str_def)
qed

lemma unsigned_nat_str: "unsigned (nat_str n) = Some n"
  using nat_str_digits [of n] by (simp add: unsigned_def digits_nat_str)

lemma parse_digits_nat_str: "parse_digits (nat_str n) = Some (int n)"
proof (cases "nat_str n")
  case Nil
  with nat_str_digits [of n] show ?thesis by simp
next
  case (Cons c ds)
  with nat_str_digits [of n] have "is_digit c" by simp
  then have "c \<noteq> CHR ''-''" "c \<noteq> CHR ''+''" by (auto simp: is_digit_def)
  with Cons show ?thesis using unsigned_nat_str [of n] by (simp add: parse_digits_def)
qed

lemma parse_digits_int_str: "parse_digits (int_str i) = Some i"
proof (cases "i < 0")
  case True
  then show ?thesis by (simp add: int_str_def parse_digits_def unsigned_nat_str)
next
  case False
  then show ?thesis by (simp add: int_str_def parse_digits_nat_str)
qed

lemma str_as_int_int_str:
  "length (int_str i) \<le> 4300 \<Longrightarrow> str_as_int (int_str i) = Some i"
  by (simp add: str_as_int_def strip_ws_id [OF int_str_chars] parse_digits_int_str)

subsection \<open>Requests on the wire and the route table\<close>

datatype http_method = GET | POST | PUT | DELETE | PATCH

record http_request =
  req_method :: http_method
  req_path :: string
  req_body :: "json option"

text \<open>What goes back on the wire: a response, or a redirect to a path.\<close>

datatype wire = Wire http_response | Redirect string

text \<open>The path templates of the decorators, \<open>"/"\<close>, \<open>"/todos/"\<close> and
  \<open>"/todos/{todo_id}"\<close>, and the methods each is declared with.\<close>

datatype route = Route_Root | Route_Todos | Route_Todo

fun route_methods :: "route \<Rightarrow> http_method list" where
  "route_methods Route_Root = [GET]"
| "route_methods Route_Todos = [POST, GET]"
| "route_methods Route_Todo = [PUT, DELETE]"

text \<open>Starlette's path match: a template parameter matches a non-empty
  segment without \<open>/\<close>, returned as the second component.\<close>

definition match_path :: "string \<Rightarrow> (route \<times> string) option" where
  "match_path p =
     (if p = ''/'' then Some (Route_Root, [])
      else if p = ''/todos/'' then Some (Route_Todos, [])
      else if take 7 p = ''/todos/'' \<and> drop 7 p \<noteq> [] \<and> CHR ''/'' \<notin> set (drop 7 p)
      then Some (Route_Todo, drop 7 p)
      else None)"

text \<open>\<open>redirect_slashes\<close>: a path with a trailing slash loses all its
  trailing slashes (\<open>rstrip("/")\<close>), any other path gets one.\<close>

definition toggle_slash :: "string \<Rightarrow> string" where
  "toggle_slash p =
     (if p \<noteq> [] \<and> last p = CHR ''/'' then rev (dropWhile (\<lambda>c. c = CHR ''/'') (rev p)) else p @ ''/'')"

definition detail_response :: "nat \<Rightarrow> string \<Rightarrow> http_response" where
  "detail_response code msg = \<lparr>status = code, body = JObj [(''detail'', JStr msg)]\<rparr>"

definition no_route :: "string \<Rightarrow> wire" where
  "no_route p =
     (if p \<noteq> ''/'' \<and> match_path (toggle_slash p) \<noteq> None then Redirect (toggle_slash p)
      else Wire (detail_response 404 ''Not Found''))"

subsection \<open>Parameter validation\<close>

text \<open>One entry of the 422 answer's \<open>detail\<close> list.\<close>

definition val_error :: "string \<Rightarrow> string list \<Rightarrow> string \<Rightarrow> json \<Rightarrow> json" where
  "val_error typ loc msg input =
     JObj [(''type'', JStr typ), (''loc'', JArr (map JStr loc)), (''msg'', JStr msg), (''input'', input)]"

definition unprocessable :: "json list \<Rightarrow> wire" where
  "unprocessable errs = Wire \<lparr>status = 422, body = JObj [(''detail'', JArr errs)]\<rparr>"

fun errors_of :: "json list + 'a \<Rightarrow> json list" where
  "errors_of (Inl es) = es"
| "errors_of (Inr _) = []"

text \<open>A string for an \<open>int\<close>, at location \<open>loc\<close>.\<close>

definition parse_int_at :: "string list \<Rightarrow> string \<Rightarrow> json list + int" where
  "parse_int_at loc s =
     (case str_as_int s of
       Some i \<Rightarrow> Inr i
     | None \<Rightarrow> Inl [val_error ''int_parsing'' loc
                 ''Input should be a valid integer, unable to parse string as an integer'' (JStr s)])"

text \<open>The fields of \<open>Todo\<close> (lines 9--11), in their order:
  \<open>id: Optional[int] = None\<close> and \<open>content: str\<close>, required.\<close>

fun parse_id_field :: "json option \<Rightarrow> json list + int option" where
  "parse_id_field None = Inr None"
| "parse_id_field (Some JNull) = Inr None"
| "parse_id_field (Some (JInt i)) = Inr (Some i)"
| "parse_id_field (Some (JStr s)) = map_sum id Some (parse_int_at [''body'', ''id''] s)"
| "parse_id_field (Some v) =
     Inl [val_error ''int_type'' [''body'', ''id''] ''Input should be a valid integer'' v]"

fun parse_content_field :: "json \<Rightarrow> json option \<Rightarrow> json list + string" where
  "parse_content_field obj None = Inl [val_error ''missing'' [''body'', ''content''] ''Field required'' obj]"
| "parse_content_field obj (Some (JStr c)) = Inr c"
| "parse_content_field obj (Some v) =
     Inl [val_error ''string_type'' [''body'', ''content''] ''Input should be a valid string'' v]"

fun parse_todo_body :: "json option \<Rightarrow> json list + todo" where
  "parse_todo_body (Some (JObj kvs)) =
     (case (parse_id_field (map_of (rev kvs) ''id''),
            parse_content_field (JObj kvs) (map_of (rev kvs) ''content'')) of
       (Inr i, Inr c) \<Rightarrow> Inr \<lparr>todo_id = i, content = c\<rparr>
     | (a, b) \<Rightarrow> Inl (errors_of a @ errors_of b))"
| "parse_todo_body (Some JNull) = Inl [val_error ''missing'' [''body''] ''Field required'' JNull]"
| "parse_todo_body None = Inl [val_error ''missing'' [''body''] ''Field required'' JNull]"
| "parse_todo_body (Some v) =
     Inl [val_error ''model_attributes_type'' [''body'']
            ''Input should be a valid dictionary or object to extract fields from'' v]"

text \<open>Routing and parameter binding: the request a wire request is, or the
  answer given without running a handler.\<close>

definition parse_request :: "http_request \<Rightarrow> wire + request" where
  "parse_request q =
     (case match_path (req_path q) of
       None \<Rightarrow> Inl (no_route (req_path q))
     | Some (rt, seg) \<Rightarrow>
         if req_method q \<notin> set (route_methods rt)
         then Inl (Wire (detail_response 405 ''Method Not Allowed''))
         else (case rt of
           Route_Root \<Rightarrow> Inr Get_Root
         | Route_Todos \<Rightarrow>
             if req_method q = POST then map_sum unprocessable Post_Todos (parse_todo_body (req_body q))
             else Inr Get_Todos
         | Route_Todo \<Rightarrow>
             if req_method q = PUT then
               (case (parse_int_at [''path'', ''todo_id''] seg, parse_todo_body (req_body q)) of
                 (Inr i, Inr t) \<Rightarrow> Inr (Put_Todo i t)
               | (a, b) \<Rightarrow> Inl (unprocessable (errors_of a @ errors_of b)))
             else map_sum unprocessable Delete_Todo (parse_int_at [''path'', ''todo_id''] seg)))"

definition handle_http :: "http_request \<Rightarrow> db \<Rightarrow> wire \<times> db" where
  "handle_http q d =
     (case parse_request q of
       Inl w \<Rightarrow> (w, d)
     | Inr r \<Rightarrow> (case serve r d of (resp, d') \<Rightarrow> (Wire resp, d')))"

text \<open>A client writing a request of the model on the wire.\<close>

definition todo_path :: "int \<Rightarrow> string" where
  "todo_path i = ''/todos/'' @ int_str i"

fun render :: "request \<Rightarrow> http_request" where
  "render Get_Root = \<lparr>req_method = GET, req_path = ''/'', req_body = None\<rparr>"
| "render (Post_Todos t) = \<lparr>req_method = POST, req_path = ''/todos/'', req_body = Some (todo_json t)\<rparr>"
| "render Get_Todos = \<lparr>req_method = GET, req_path = ''/todos/'', req_body = None\<rparr>"
| "render (Put_Todo i t) =
     \<lparr>req_method = PUT, req_path = todo_path i, req_body = Some (todo_json t)\<rparr>"
| "render (Delete_Todo i) = \<lparr>req_method = DELETE, req_path = todo_path i, req_body = None\<rparr>"

fun path_id_ok :: "request \<Rightarrow> bool" where
  "path_id_ok (Put_Todo i _) = (length (int_str i) \<le> 4300)"
| "path_id_ok (Delete_Todo i) = (length (int_str i) \<le> 4300)"
| "path_id_ok _ = True"

subsection \<open>Requests written by a client are bound back to themselves\<close>

lemma parse_todo_body_json: "parse_todo_body (Some (todo_json t)) = Inr t"
  by (cases "todo_id t") (simp_all add: todo_json_def)

lemma nat_str_no_slash: "CHR ''/'' \<notin> set (nat_str n)"
  using nat_str_digits [of n] by (auto simp: list_all_iff is_digit_def)

lemma match_todo_path: "match_path (todo_path i) = Some (Route_Todo, int_str i)"
proof -
  have "int_str i \<noteq> []" "CHR ''/'' \<notin> set (int_str i)"
    using nat_str_digits nat_str_no_slash by (auto simp: int_str_def)
  then show ?thesis by (auto simp: match_path_def todo_path_def)
qed

lemma parse_int_at_int_str:
  "length (int_str i) \<le> 4300 \<Longrightarrow> parse_int_at loc (int_str i) = Inr i"
  by (simp add: parse_int_at_def str_as_int_int_str)

lemma match_fixed_paths:
  "match_path ''/'' = Some (Route_Root, [])" "match_path ''/todos/'' = Some (Route_Todos, [])"
  by (simp_all add: match_path_def)

lemma parse_render: "path_id_ok r \<Longrightarrow> parse_request (render r) = Inr r"
  by (cases r)
     (simp_all add: parse_request_def match_fixed_paths match_todo_path parse_todo_body_json
       parse_int_at_int_str)

lemma parse_content_fail:
  "\<forall>c. v \<noteq> Some (JStr c) \<Longrightarrow> \<exists>es. parse_content_field obj v = Inl es \<and> es \<noteq> []"
  by (cases "(obj, v)" rule: parse_content_field.cases) auto

subsection \<open>Properties of the request side\<close>

text \<open>C13: a request of the model, written on the wire by a client, is
  routed to its handler and its path and body bind back to the same values,
  so the service answers it exactly as \<^term>\<open>serve\<close> does, with the same
  database afterwards (for path ids of at most 4300 characters).\<close>

theorem handle_http_render:
  "path_id_ok r \<Longrightarrow> handle_http (render r) d = (Wire (fst (serve r d)), snd (serve r d))"
  by (simp add: handle_http_def parse_render split: prod.split)

theorem handle_http_render_witness:
  "handle_http (render (Delete_Todo 7)) \<lparr>table = Some [], next_id = 1\<rparr> =
   (Wire (fst (serve (Delete_Todo 7) \<lparr>table = Some [], next_id = 1\<rparr>)),
    snd (serve (Delete_Todo 7) \<lparr>table = Some [], next_id = 1\<rparr>))"
  by (rule handle_http_render) (simp add: int_str_def nat_str.simps)

text \<open>C17: a POST whose JSON body has no string \<open>content\<close> is refused with
  422 and a non-empty list of errors before the handler runs: no statement
  is sent, so the table and the sequence are unchanged (unlike a string
  content with a NUL character, which passes validation and fails in the
  driver).\<close>

theorem post_without_content_422:
  assumes "\<forall>c. map_of (rev kvs) ''content'' \<noteq> Some (JStr c)"
  shows "\<exists>errs. errs \<noteq> [] \<and>
    handle_http \<lparr>req_method = POST, req_path = ''/todos/'', req_body = Some (JObj kvs)\<rparr> d =
      (unprocessable errs, d)"
proof -
  obtain es where es: "parse_content_field (JObj kvs) (map_of (rev kvs) ''content'') = Inl es"
      "es \<noteq> []"
    using assms parse_content_fail [of "map_of (rev kvs) ''content''" "JObj kvs"] by blast
  then show ?thesis
    by (auto simp: handle_http_def parse_request_def match_fixed_paths split: sum.split)
qed

theorem post_without_content_422_witness:
  "\<exists>errs. errs \<noteq> [] \<and>
    handle_http \<lparr>req_method = POST, req_path = ''/todos/'', req_body = Some (JObj [(''content'', JInt 5)])\<rparr>
      \<lparr>table = Some [], next_id = 1\<rparr> = (unprocessable errs, \<lparr>table = Some [], next_id = 1\<rparr>)"
  by (rule post_without_content_422) simp

end
