(* ===== verification/Service.thy ===== *)
theory Service
  imports App Concurrency Http_Request
begin

text \<open>
  The running service with requests in flight at once: the composition of
  the lifecycle of \<open>App\<close> (the \<open>lifespan\<close> startup of lines 28--32 runs
  once, before any request is taken) with the statement-level handlers of
  \<open>Concurrency\<close>. A request arrives, bound to its handler or from the wire
  (\<^term>\<open>svc_receive\<close>: routing and validation, a refused request answered
  at once), and joins the requests in flight; its
  statements interleave with the others' on the shared database, and when
  its handler has returned or raised, FastAPI sends its response, which
  joins the log of answers in the order they are sent. \<^term>\<open>svc_step\<close> is
  the step relation and \<^term>\<open>svc_reach\<close> its reachable states from a
  well-formed database; \<^term>\<open>svc_exec\<close> replays a given sequence of
  events. The invariant \<^term>\<open>svc_inv\<close> extends the one of \<open>App\<close> to the
  requests in flight.
\<close>

record service =
  svc_started :: bool
  svc_db :: db
  svc_stdout :: "string list"
  in_flight :: "(request \<times> req_pc) list"
  svc_served :: "(request \<times> http_response) list"
  svc_sent :: "wire list"

definition service_init :: "db \<Rightarrow> service" where
  "service_init d =
     \<lparr>svc_started = False, svc_db = d, svc_stdout = [], in_flight = [], svc_served = [], svc_sent = []\<rparr>"

definition svc_startup :: "service \<Rightarrow> service" where
  "svc_startup s =
     s\<lparr>svc_stdout := svc_stdout s @ [''Creating tables..''],
       svc_db := create_db_and_tables (svc_db s), svc_started := True\<rparr>"

definition svc_arrive :: "request \<Rightarrow> service \<Rightarrow> service" where
  "svc_arrive r s = s\<lparr>in_flight := in_flight s @ [(r, Begin r)]\<rparr>"

text \<open>A request on the wire: routing and validation run before any handler;
  a request they refuse is answered at once, one they accept joins the
  requests in flight as the handler call it binds.\<close>

definition svc_receive :: "http_request \<Rightarrow> service \<Rightarrow> service" where
  "svc_receive q s =
     (case parse_request q of
       Inl w \<Rightarrow> s\<lparr>svc_sent := svc_sent s @ [w]\<rparr>
     | Inr r \<Rightarrow> svc_arrive r s)"

definition svc_run :: "nat \<Rightarrow> req_pc \<Rightarrow> db \<Rightarrow> service \<Rightarrow> service" where
  "svc_run i p' d' s = s\<lparr>svc_db := d', in_flight := (in_flight s)[i := (fst (in_flight s ! i), p')]\<rparr>"

definition svc_reply :: "nat \<Rightarrow> request \<Rightarrow> exc + pyval \<Rightarrow> service \<Rightarrow> service" where
  "svc_reply i r a s =
     s\<lparr>in_flight := remove_at i (in_flight s), svc_served := svc_served s @ [(r, respond r a)],
       svc_sent := svc_sent s @ [Wire (respond r a)]\<rparr>"

inductive svc_step :: "service \<Rightarrow> service \<Rightarrow> bool" where
  startup: "\<not> svc_started s \<Longrightarrow> svc_step s (svc_startup s)"
| arrive: "svc_started s \<Longrightarrow> svc_step s (svc_arrive r s)"
| run: "i < length (in_flight s) \<Longrightarrow> \<not> answered (snd (in_flight s ! i)) \<Longrightarrow>
        req_step (snd (in_flight s ! i)) (svc_db s) = (p', d') \<Longrightarrow> svc_step s (svc_run i p' d' s)"
| reply: "i < length (in_flight s) \<Longrightarrow> in_flight s ! i = (r, Answered a) \<Longrightarrow>
          svc_step s (svc_reply i r a s)"
| receive: "svc_started s \<Longrightarrow> svc_step s (svc_receive q s)"

inductive svc_reach :: "service \<Rightarrow> bool" where
  init: "wf_db d \<Longrightarrow> svc_reach (service_init d)"
| step: "svc_reach s \<Longrightarrow> svc_step s t \<Longrightarrow> svc_reach t"

text \<open>Events replayed in order; an event that is not enabled is skipped.\<close>

datatype svc_event = Startup | Arrive request | Run nat | Reply nat | Receive http_request

fun svc_exec :: "svc_event list \<Rightarrow> service \<Rightarrow> service" where
  "svc_exec [] s = s"
| "svc_exec (Startup # es) s = svc_exec es (if svc_started s then s else svc_startup s)"
| "svc_exec (Arrive r # es) s = svc_exec es (if svc_started s then svc_arrive r s else s)"
| "svc_exec (Run i # es) s =
     svc_exec es
       (if i < length (in_flight s) \<and> \<not> answered (snd (in_flight s ! i))
        then (case req_step (snd (in_flight s ! i)) (svc_db s) of (p', d') \<Rightarrow> svc_run i p' d' s)
        else s)"
| "svc_exec (Reply i # es) s =
     svc_exec es
       (if i < length (in_flight s)
        then (case in_flight s ! i of (r, Answered a) \<Rightarrow> svc_reply i r a s | _ \<Rightarrow> s)
        else s)"
| "svc_exec (Receive q # es) s = svc_exec es (if svc_started s then svc_receive q s else s)"

text \<open>The invariant: the database invariant of \<open>App\<close>, and for the creates
  without \<open>id\<close> the ids they hold in flight and the ids answered to them so
  far, all distinct and below the sequence.\<close>

fun auto_req :: "request \<Rightarrow> bool" where
  "auto_req (Post_Todos t) = (todo_id t = None)"
| "auto_req _ = False"

fun create_pc :: "request \<Rightarrow> req_pc \<Rightarrow> bool" where
  "create_pc r (Begin q) = (q = r)"
| "create_pc r (Refreshing _) = True"
| "create_pc r (Answered (Inl _)) = True"
| "create_pc r (Answered (Inr (PyTodo _))) = True"
| "create_pc r _ = False"

definition flight_ids :: "request \<times> req_pc \<Rightarrow> int list" where
  "flight_ids x = (if auto_req (fst x) then pc_ids (snd x) else [])"

definition svc_ids :: "service \<Rightarrow> int list" where
  "svc_ids s = auto_ids (svc_served s) @ concat (map flight_ids (in_flight s))"

definition svc_inv :: "service \<Rightarrow> bool" where
  "svc_inv s \<longleftrightarrow> wf_db (svc_db s) \<and>
     (if svc_started s then table (svc_db s) \<noteq> None else in_flight s = [] \<and> svc_served s = []) \<and>
     list_all (\<lambda>x. auto_req (fst x) \<longrightarrow> create_pc (fst x) (snd x)) (in_flight s) \<and>
     distinct (svc_ids s) \<and> list_all (\<lambda>i. i < next_id (svc_db s)) (svc_ids s)"

subsection \<open>Replaying events\<close>

lemma svc_exec_reach: "svc_reach s \<Longrightarrow> svc_reach (svc_exec es s)"
proof (induction es s rule: svc_exec.induct)
  case (4 i es s)
  show ?case
  proof (cases "i < length (in_flight s) \<and> \<not> answered (snd (in_flight s ! i))")
    case True
    obtain p' d' where st: "req_step (snd (in_flight s ! i)) (svc_db s) = (p', d')" by fastforce
    with True "4.prems" have "svc_reach (svc_run i p' d' s)"
      by (blast intro: svc_reach.step svc_step.run)
    with True st "4.IH" show ?thesis by simp
  next
    case False
    then have "svc_exec (Run i # es) s = svc_exec es s"
      by (simp only: svc_exec.simps if_not_P [OF False] if_False)
    moreover have "svc_reach (svc_exec es s)"
      using "4.IH" "4.prems" False by (simp only: if_not_P [OF False] if_False)
    ultimately show ?thesis by (simp only:)
  qed
next
  case (5 i es s)
  show ?case
  proof (cases "i < length (in_flight s)")
    case True
    show ?thesis
    proof (cases "in_flight s ! i" rule: prod.exhaust)
      case (Pair r p)
      show ?thesis
      proof (cases "\<exists>a. p = Answered a")
        case True
        then obtain a where "p = Answered a" by blast
        with Pair \<open>i < length (in_flight s)\<close> "5.prems" have "svc_reach (svc_reply i r a s)"
          by (blast intro: svc_reach.step svc_step.reply)
        with \<open>i < length (in_flight s)\<close> Pair \<open>p = Answered a\<close> "5.IH" show ?thesis by simp
      next
        case False
        then have "(case in_flight s ! i of (r, Answered a) \<Rightarrow> svc_reply i r a s | _ \<Rightarrow> s) = s"
          using Pair by (cases p) auto
        with \<open>i < length (in_flight s)\<close> "5.IH" "5.prems" show ?thesis by simp
      qed
    qed
  next
    case False
    with "5.IH" "5.prems" show ?thesis by simp
  qed
next
  case (2 es s)
  have "svc_reach (if svc_started s then s else svc_startup s)"
    using "2.prems" by (auto intro: svc_reach.step svc_step.startup)
  then show ?case using "2.IH" by simp
next
  case (3 r es s)
  have "svc_reach (if svc_started s then svc_arrive r s else s)"
    using "3.prems" by (auto intro: svc_reach.step svc_step.arrive)
  then show ?case using "3.IH" by simp
next
  case (6 q es s)
  have "svc_reach (if svc_started s then svc_receive q s else s)"
    using "6.prems" by (auto intro: svc_reach.step svc_step.receive)
  then show ?case using "6.IH" by simp
qed simp

subsection \<open>The requests in flight\<close>

lemma create_pc_auto: "auto_req r \<Longrightarrow> create_pc r p \<Longrightarrow> auto_create p"
  by (cases r; cases p rule: auto_create.cases) auto

lemma refresh_answer_form:
  "(\<exists>e. refresh_answer j d = Inl e) \<or> (\<exists>t. refresh_answer j d = Inr (PyTodo t))"
  by (simp add: refresh_answer_def split: sum.split)


lemma create_pc_step:
  assumes "auto_req r" and "create_pc r p" and "\<not> answered p" and st: "req_step p d = (p', d')"
  shows "create_pc r p'"
proof (cases p)
  case (Begin q)
  with assms(1,2) obtain t where "p = Begin (Post_Todos t)" "r = Post_Todos t"
    by (cases r) auto
  with st show ?thesis by (auto split: prod.splits sum.splits)
next
  case (Refreshing j)
  with st refresh_answer_form [of j d] show ?thesis by auto
qed (use assms in auto)

lemma auto_id_respond:
  assumes "auto_req r \<longrightarrow> create_pc r (Answered a)"
  shows "auto_id (r, respond r a) = [] \<or> auto_id (r, respond r a) = flight_ids (r, Answered a)"
proof (cases r)
  case (Post_Todos t)
  show ?thesis
  proof (cases "todo_id t")
    case None
    with assms Post_Todos have cp: "create_pc r (Answered a)" by simp
    show ?thesis
    proof (cases a)
      case (Inl e)
      then show ?thesis using Post_Todos
        by (cases e) (simp_all add: respond_def flight_ids_def internal_error_def)
    next
      case (Inr v)
      with cp obtain t' where "v = PyTodo t'" by (cases v) auto
      with Inr Post_Todos None show ?thesis
        by (simp add: respond_def flight_ids_def todo_json_def split: option.split)
    qed
  qed (simp add: Post_Todos)
qed simp_all

lemma flight_ids_step:
  assumes cp: "auto_req r \<longrightarrow> create_pc r p" and na: "\<not> answered p" and st: "req_step p d = (p', d')"
    and own: "set (flight_ids (r, p)) \<subseteq> set S" and below: "\<forall>k \<in> set S. k < next_id d"
  shows "(auto_req r \<longrightarrow> create_pc r p') \<and> distinct (flight_ids (r, p')) \<and>
    set (flight_ids (r, p')) \<inter> set S \<subseteq> set (flight_ids (r, p)) \<and>
    (\<forall>k \<in> set (flight_ids (r, p')). k < next_id d')"
proof (cases "auto_req r")
  case True
  with cp have "create_pc r p" by simp
  with True own show ?thesis
    using auto_create_pc_step [OF create_pc_auto [OF True] na st _ below] create_pc_step [OF True _ na st]
    by (simp add: flight_ids_def)
qed (simp add: flight_ids_def)

lemma req_step_table: "table d \<noteq> None \<Longrightarrow> table (snd (req_step p d)) \<noteq> None"
proof (induction p d rule: req_step.induct)
  case (2 t d)
  then show ?case
    by (simp only: req_step_create_db) (cases "pg_insert (todo_id t) (content t) d" rule: prod.exhaust,
        metis old.sum.exhaust option.distinct(1) pg_insert_Inl_table pg_insert_Inr snd_conv)
next
  case (5 old obj d)
  then show ?case by (auto split: sum.split dest: pg_update_Inr)
next
  case (7 i d)
  then show ?case by (auto split: sum.split dest: pg_delete_Inr)
qed (simp_all split: sum.split option.split)

subsection \<open>The invariant of the running service\<close>

inductive_cases svc_step_elim: "svc_step s t"

lemma svc_inv_init: "wf_db d \<Longrightarrow> svc_inv (service_init d)"
  by (simp add: svc_inv_def service_init_def svc_ids_def auto_ids_def)

lemma svc_inv_startup: "svc_inv s \<Longrightarrow> \<not> svc_started s \<Longrightarrow> svc_inv (svc_startup s)"
  by (auto simp: svc_inv_def svc_startup_def svc_ids_def auto_ids_def create_db_and_tables_def
      create_all_def wf_db_def int4_max_def split: option.split)

lemma svc_inv_arrive: "svc_inv s \<Longrightarrow> svc_started s \<Longrightarrow> svc_inv (svc_arrive r s)"
  by (simp add: svc_inv_def svc_arrive_def svc_ids_def flight_ids_def)

lemma svc_inv_receive:
  assumes "svc_inv s" and "svc_started s"
  shows "svc_inv (svc_receive q s)"
proof (cases "parse_request q")
  case (Inl w)
  then show ?thesis using assms(1) by (simp add: svc_receive_def svc_inv_def svc_ids_def)
next
  case (Inr r)
  then show ?thesis using assms by (simp add: svc_receive_def svc_inv_arrive)
qed

lemma svc_inv_started: "svc_inv s \<Longrightarrow> in_flight s \<noteq> [] \<Longrightarrow> svc_started s"
  by (auto simp: svc_inv_def split: if_splits)

lemma svc_inv_run:
  assumes inv: "svc_inv s" and i: "i < length (in_flight s)" and na: "\<not> answered (snd (in_flight s ! i))"
    and st: "req_step (snd (in_flight s ! i)) (svc_db s) = (p', d')"
  shows "svc_inv (svc_run i p' d' s)"
proof -
  let ?xs = "in_flight s" and ?A = "auto_ids (svc_served s)"
  let ?x = "?xs ! i"
  let ?y = "(fst ?x, p')"
  have started: "svc_started s" using inv i by (auto intro: svc_inv_started)
  have wf: "wf_db (svc_db s)" and tab: "table (svc_db s) \<noteq> None"
    and cps: "list_all (\<lambda>x. auto_req (fst x) \<longrightarrow> create_pc (fst x) (snd x)) ?xs"
    and dist: "distinct (svc_ids s)" and below: "\<forall>k \<in> set (svc_ids s). k < next_id (svc_db s)"
    using inv started by (simp_all add: svc_inv_def list_all_iff)
  have cp: "auto_req (fst ?x) \<longrightarrow> create_pc (fst ?x) (snd ?x)" using cps i by (simp add: list_all_length)
  have "?x \<in> set ?xs" using i by (rule nth_mem)
  then have own: "set (flight_ids (fst ?x, snd ?x)) \<subseteq> set (svc_ids s)" by (auto simp: svc_ids_def)
  obtain cp': "auto_req (fst ?x) \<longrightarrow> create_pc (fst ?x) p'" and dy: "distinct (flight_ids ?y)"
    and sy: "set (flight_ids ?y) \<inter> set (svc_ids s) \<subseteq> set (flight_ids ?x)"
    and bel: "\<forall>k \<in> set (flight_ids ?y). k < next_id d'"
    using flight_ids_step [OF cp na st own below] by simp
  have eq: "svc_ids s = ?A @ concat (map flight_ids ?xs)" by (simp only: svc_ids_def)
  have mono: "next_id (svc_db s) \<le> next_id d'" using req_step_next_id [of "svc_db s" "snd ?x"] st by simp
  have wf': "wf_db d'" using req_step_wf [OF wf, of "snd ?x"] st by simp
  have tab': "table d' \<noteq> None" using req_step_table [OF tab, of "snd ?x"] st by simp
  have "distinct (?A @ concat (map flight_ids (?xs[i := ?y])))"
    using distinct_prefix_update [OF i dist [unfolded eq] dy sy [unfolded eq]] .
  moreover have "list_all (\<lambda>k. k < next_id d') (?A @ concat (map flight_ids (?xs[i := ?y])))"
    unfolding list_all_iff
  proof
    fix k
    assume "k \<in> set (?A @ concat (map flight_ids (?xs[i := ?y])))"
    with set_concat_map_update [OF i, of flight_ids ?y] eq
    have "k \<in> set (svc_ids s) \<or> k \<in> set (flight_ids ?y)" by (simp only: set_append) blast
    then show "k < next_id d'" using below bel mono by fastforce
  qed
  moreover have "list_all (\<lambda>x. auto_req (fst x) \<longrightarrow> create_pc (fst x) (snd x)) (?xs[i := ?y])"
    using cps cp' set_update_subset_insert [of ?xs i ?y] by (auto simp: list_all_iff)
  ultimately show ?thesis using started wf' tab' by (simp add: svc_inv_def svc_run_def svc_ids_def)
qed

lemma svc_inv_reply:
  assumes inv: "svc_inv s" and i: "i < length (in_flight s)" and x: "in_flight s ! i = (r, Answered a)"
  shows "svc_inv (svc_reply i r a s)"
proof -
  let ?xs = "in_flight s" and ?A = "auto_ids (svc_served s)"
  let ?T = "concat (map flight_ids (take i ?xs))" and ?D = "concat (map flight_ids (drop (Suc i) ?xs))"
  let ?F = "flight_ids (r, Answered a)" and ?N = "auto_id (r, respond r a)"
  let ?s' = "svc_reply i r a s"
  have started: "svc_started s" using inv i by (auto intro: svc_inv_started)
  have cps: "list_all (\<lambda>x. auto_req (fst x) \<longrightarrow> create_pc (fst x) (snd x)) ?xs"
    and dist: "distinct (svc_ids s)" and below: "list_all (\<lambda>k. k < next_id (svc_db s)) (svc_ids s)"
    using inv by (simp_all add: svc_inv_def)
  have cp: "auto_req r \<longrightarrow> create_pc r (Answered a)"
    using cps i x by (metis (mono_tags, lifting) fst_conv list_all_length snd_conv)
  have old: "svc_ids s = ?A @ ?T @ ?F @ ?D"
    using concat_map_nth [OF i, of flight_ids] x by (simp add: svc_ids_def)
  have new: "svc_ids ?s' = ?A @ ?N @ ?T @ ?D"
    by (simp add: svc_ids_def svc_reply_def auto_ids_snoc concat_map_remove_at)
  have NF: "?N = [] \<or> ?N = ?F" by (rule auto_id_respond [OF cp])
  then have dN: "distinct ?N" and sN: "set ?N \<subseteq> set ?F" using dist old by auto
  have "distinct (svc_ids ?s')"
    using distinct_move_segment [OF dist [unfolded old] dN sN] new by (simp only:)
  moreover have "set (svc_ids ?s') \<subseteq> set (svc_ids s)" using old new sN by auto
  moreover have "list_all (\<lambda>x. auto_req (fst x) \<longrightarrow> create_pc (fst x) (snd x)) (remove_at i ?xs)"
    using cps set_remove_at [of i ?xs] by (auto simp: list_all_iff)
  ultimately show ?thesis
    using inv started below by (auto simp: svc_inv_def svc_reply_def list_all_iff)
qed

lemma svc_reach_inv: "svc_reach s \<Longrightarrow> svc_inv s"
proof (induction rule: svc_reach.induct)
  case (init d)
  then show ?case by (rule svc_inv_init)
next
  case (step s t)
  from step.hyps(2) step.IH show ?case
    by (cases rule: svc_step_elim)
       (auto intro: svc_inv_startup svc_inv_arrive svc_inv_run svc_inv_reply svc_inv_receive)
qed

subsection \<open>Ids answered to creates\<close>

text \<open>C22: in every state of the running service, however the statements
  of the requests in flight interleave and whenever their answers are sent,
  the ids the service has answered to creates whose body had no \<open>id\<close> are
  pairwise distinct. They are not increasing in the order the answers are
  sent: the witness runs two such creates, answers the second first, and
  logs the ids 2 then 1.\<close>

theorem service_auto_ids_distinct: "svc_reach s \<Longrightarrow> distinct (auto_ids (svc_served s))"
  by (drule svc_reach_inv) (simp add: svc_inv_def svc_ids_def)

lemma service_order_run:
  "auto_ids (svc_served (svc_exec [Startup, Arrive (Post_Todos \<lparr>todo_id = None, content = ''a''\<rparr>),
      Arrive (Post_Todos \<lparr>todo_id = None, content = ''b''\<rparr>), Run 0, Run 1, Run 1, Reply 1, Run 0, Reply 0]
     (service_init \<lparr>table = None, next_id = 1\<rparr>))) = [2, 1]"
  by code_simp

theorem service_auto_ids_distinct_witness:
  "distinct (auto_ids (svc_served (svc_exec [Startup, Arrive (Post_Todos \<lparr>todo_id = None, content = ''a''\<rparr>),
      Arrive (Post_Todos \<lparr>todo_id = None, content = ''b''\<rparr>), Run 0, Run 1, Run 1, Reply 1, Run 0, Reply 0]
     (service_init \<lparr>table = None, next_id = 1\<rparr>)))) \<and>
   auto_ids (svc_served (svc_exec [Startup, Arrive (Post_Todos \<lparr>todo_id = None, content = ''a''\<rparr>),
      Arrive (Post_Todos \<lparr>todo_id = None, content = ''b''\<rparr>), Run 0, Run 1, Run 1, Reply 1, Run 0, Reply 0]
     (service_init \<lparr>table = None, next_id = 1\<rparr>))) = [2, 1]"
proof -
  let ?s = "svc_exec [Startup, Arrive (Post_Todos \<lparr>todo_id = None, content = ''a''\<rparr>),
      Arrive (Post_Todos \<lparr>todo_id = None, content = ''b''\<rparr>), Run 0, Run 1, Run 1, Reply 1, Run 0, Reply 0]
     (service_init \<lparr>table = None, next_id = 1\<rparr>)"
  have "svc_reach ?s" by (rule svc_exec_reach, rule svc_reach.init) (simp add: wf_db_def)
  then have "distinct (auto_ids (svc_served ?s))" by (rule service_auto_ids_distinct)
  then show ?thesis using service_order_run by (rule conjI)
qed

end
