(* ===== verification/Spec2Isabelle.thy ===== *)
theory Spec2Isabelle
  imports Db_Config App Serializability Http_Request Service
begin

text \<open>
  \<^bold>\<open>A verification development for the FastAPI todo service\<close>
  (\<open>src/fastapi_todo/main.py\<close>, the repository's only source file).

  \<^bold>\<open>The program.\<close> A FastAPI application serves five routes over one
  PostgreSQL table \<open>todo(id, content)\<close> through SQLModel/SQLAlchemy:
  \<open>GET /\<close> (\<open>read_root\<close>), \<open>POST /todos/\<close> (\<open>create_todo\<close>),
  \<open>GET /todos/\<close> (\<open>read_todos\<close>), \<open>PUT /todos/{todo_id}\<close>
  (\<open>update_todo\<close>) and \<open>DELETE /todos/{todo_id}\<close> (\<open>delete_todo\<close>). Each
  request gets its own session from the \<open>get_session\<close> dependency; the
  handlers issue their statements on it, commit, and \<open>session.refresh\<close> the
  object they return; FastAPI validates the returned value against the
  route's \<open>response_model\<close>. At startup the \<open>lifespan\<close> context prints a
  line and runs \<open>create_db_and_tables\<close>. The engine is built at import time
  from the configured URL, rewritten by \<open>str.replace\<close> to select the psycopg
  driver.

  \<^bold>\<open>Theories, bottom up.\<close>
  \<^item> \<open>Prelude\<close>: the row lists that model the table, the \<open>integer\<close> range of
    the \<open>id\<close> column (\<open>in_int4\<close>), and the lemmas (collection \<open>row_simps\<close>)
    relating finding, removing and rewriting a row to \<open>map_of\<close>.
  \<^item> \<open>Py_Str\<close>: Python's \<open>str.replace\<close> (\<open>py_replace\<close>, the left-to-right scan
    \<open>py_replace_scan\<close> terminating on the length of the rest).
  \<^item> \<open>Db_Config\<close>: \<open>connection_string\<close> and \<open>create_engine\<close> (lines 14--20).
  \<^item> \<open>Pg_Store\<close>: the database the ORM talks to, a record \<open>db\<close> of the table
    (absent until created) and the sequence \<open>next_id\<close>; one definition per
    statement the handlers cause (\<open>pg_insert\<close>, \<open>pg_select_id\<close>,
    \<open>pg_select_all\<close>, \<open>pg_update\<close>, \<open>pg_delete\<close>, \<open>create_all\<close>), each
    failing as PostgreSQL and the driver do (missing table, duplicate key,
    NULL key, \<open>integer\<close> overflow, exhausted sequence, NUL in text, stale
    update) and leaving the table as it was when it fails. The database is not
    code of the repository; these definitions are modelled from its
    documented behaviour. \<open>wf_db\<close> is its well-formedness and \<open>tmap\<close> its
    abstraction to a finite map from ids to contents.
  \<^item> \<open>Todo_Api\<close>: the \<open>Todo\<close> class as a record, the session (\<open>get_session\<close>,
    commit, rollback on close), \<open>session.refresh\<close>, the field-copying loop of
    \<open>update_todo\<close>, and the five handlers, each a function from a session to
    a result (a Python value or an exception) and the new session.
  \<^item> \<open>Http_App\<close>: response-model validation and JSON encoding, the mapping of
    exceptions to status codes, the routing (\<open>dispatch\<close>), \<open>serve\<close> for one
    request and \<open>run_requests\<close> for a sequence; then the route-level theorems.
  \<^item> \<open>App\<close>: the lifecycle as an inductive step relation \<open>app_step\<close> (startup,
    then requests) and its \<open>reachable\<close> states, with invariants by rule
    induction.
  \<^item> \<open>Concurrency\<close>: the requests in flight at once, as FastAPI runs
    \<open>def\<close> handlers in worker threads. Each handler is split into its SQL
    statements (\<open>req_step\<close> on a program counter \<open>req_pc\<close>: the handler's
    \<open>SELECT\<close>, its write with the commit after it, the refresh), the
    statements of different requests interleave on the shared database
    (\<open>conc_step\<close>, READ COMMITTED, one atomic step per statement), and
    \<open>run_alone\<close> runs one request with nothing in between, terminating on
    \<open>pc_rank\<close>, the statements left. \<open>run_schedule\<close> replays a given
    schedule of the worker threads.
  \<^item> \<open>Serializability\<close>: requests on different todos (PUTs that keep the
    path's id, DELETEs, \<open>GET /\<close>) commute step by step: a step on one id
    neither sees (\<open>row_view\<close>) nor changes another id's row, so two steps of
    different requests form a diamond, and with termination every
    interleaving reaches the same final configuration.
  \<^item> \<open>Http_Request\<close>: the request side of the HTTP layer. Requests on the
    wire (\<open>http_request\<close>: method, path, JSON body) are matched against
    the route table of the decorators (\<open>route_methods\<close>, \<open>match_path\<close>),
    answered 405, 404 or redirected (307, \<open>no_route\<close>) when no route takes
    them, and otherwise bound to the handler's parameters with pydantic's
    validation (\<open>str_as_int\<close> for \<open>todo_id: int\<close>, \<open>parse_todo_body\<close>
    for the \<open>Todo\<close> body, 422 with the error list); \<open>handle_http\<close> is the
    whole service on one wire request. \<open>render\<close> and \<open>int_str\<close> write a
    request as a client does.
  \<^item> \<open>Service\<close>: the running service, composing the lifecycle of \<open>App\<close>
    with the interleaving of \<open>Concurrency\<close>. Its state (\<open>service\<close>) is the
    one of \<open>app_state\<close> plus the requests in flight with their program
    counters; its steps (\<open>svc_step\<close>) are the \<open>lifespan\<close> startup
    (\<open>svc_startup\<close>, lines 28--32, once, before any request), the arrival
    of a request, either already bound to its handler (\<open>svc_arrive\<close>) or
    from the wire (\<open>svc_receive\<close>: routing and validation by
    \<open>parse_request\<close>, a refused request answered at once), one statement of a request in flight (\<open>svc_run\<close>, by
    \<open>req_step\<close>), and the answer FastAPI sends for a request whose handler
    has returned or raised (\<open>svc_reply\<close>, by \<open>respond\<close>), which joins the
    log in the order answers are sent; \<open>svc_sent\<close> is the sequence of
    answers on the wire. \<open>svc_exec\<close> replays a sequence of
    such events.
  \<^item> this theory: the abstract contract of the spec, on the table
    (\<open>spec_effect\<close>) and on the answers with the table (\<open>spec_op\<close>), the
    refinement theorems, and properties of request sequences.

  \<^bold>\<open>What is proved.\<close> Per route (\<open>Http_App\<close>), the answer and the new
  database state: a create without \<open>id\<close> gets the sequence value (C1); an
  update with the row's own id rewrites it in place (C3); a PUT or DELETE of
  a missing id answers 404 and changes nothing (C4); the list returns every
  row (C8). Against the spec (this theory): every request changes the map
  view of the table as one of the spec's operations does, unless a PUT body
  names another id (C2); every answer other than the framework's 500 is one
  the spec's contract on answers allows, with the table change it describes
  (C12); the spec's create-update-list-delete-list round trip on any
  well-formed table (C14). In the lifecycle (\<open>App\<close>): once started, the
  table exists in every reachable state (C10), and the ids answered to
  creates without \<open>id\<close>, one request at a time, strictly increase (C11).
  For the configuration: the scheme rewrite and the \<open>postgres://\<close> scheme
  it leaves alone (C15), and its non-idempotence (C16).

  Findings proved as general theorems: DELETE of an existing row answers 500
  after committing the deletion, since the returned dict does not validate
  against \<open>response_model=Todo\<close> (C5); PUT with a body without \<open>id\<close>
  answers 500, since the field loop assigns \<open>id = None\<close> (C6); PUT with
  another free \<open>id\<close> moves the row (C7), and with another taken \<open>id\<close>
  answers 500 (C18); an explicit \<open>id\<close> in a POST body is stored as given
  and makes the next create without \<open>id\<close> fail on the same sequence value,
  which it consumes (C9).

  On the wire (\<open>Http_Request\<close>): every request of the model written by a
  client is routed and bound back to itself and answered exactly as by
  \<open>serve\<close> (C13); a POST body without a string \<open>content\<close> is refused with
  422 before any statement runs (C17).

  Under concurrency (\<open>Concurrency\<close>), three races, each for any table and
  data meeting its hypotheses, on the order of steps of the two requests
  given by \<open>run_schedule\<close>: an update racing a delete of its row gets
  \<open>StaleDataError\<close> (500) while the deletion stays committed (C19); a create
  racing a delete of its new id gets \<open>ObjectDeletedError\<close> at the refresh
  (500) after committing the row (C20); two updates of one row both answer
  200 with the last writer's content (C21). In the running service
  (\<open>Service\<close>), with the requests' statements interleaved and the answers
  sent in any order, the ids answered to creates without \<open>id\<close> are pairwise
  distinct, by the invariant \<open>svc_inv\<close> over all reachable states; a
  concrete run shows they need not increase in the order sent (C22).
  Requests on pairwise different todos are serializable: every interleaving
  that answers them sends the responses, and leaves the database, of
  serving them one after another (C23, \<open>Serializability\<close>).

  \<^bold>\<open>Framework versions.\<close> The repository pins no versions of FastAPI,
  SQLModel or Pydantic. The model of FastAPI's validation assumes that the
  request body and the returned value are both validated against the
  \<open>Todo\<close> model: a returned dict without \<open>content\<close> is refused (500, C5
  and C14), and a body without a string \<open>content\<close> is refused (422, C17).
  This holds for SQLModel on Pydantic 1. On Pydantic 2, a \<open>table=True\<close>
  SQLModel class may be built without validation, and these three answers
  would then differ.

  \<^bold>\<open>Bounds.\<close> Ids are \<open>int\<close> checked against the PostgreSQL \<open>integer\<close> range
  \<open>[-2147483648, 2147483647]\<close>; the sequence starts at 1 and fails past the
  maximum. No fuel is used: every recursive definition terminates
  structurally or by a measure (the length of the rest of the string for
  \<open>str.replace\<close>, the statements left for \<open>run_alone\<close>). A statement of
  a handler with the commit that follows it is one atomic step: each
  transaction of the handlers writes at most once and commits right after
  the write, so no other transaction observes it in between; row locks
  taken by the write are released at that commit.

  \<^bold>\<open>Not modelled.\<close> The bytes of a request (headers, JSON syntax errors,
  query strings, percent-encoding, the host part of a redirect URL), JSON
  numbers that are not integers and booleans, the \<open>settings\<close> module
  that supplies the URL, the connection pool and TLS (the engine's
  parameters are recorded, not their effect), and the printed log beyond its
  one line. Under concurrency, the model does not separate a write from its
  commit, so it has no lock waits: a second writer of the same row waits at
  its \<open>UPDATE\<close> until the first commits and then proceeds on the committed
  row, which is the outcome the atomic step gives; a pool exhausted by more
  requests than connections only delays them. The serializability theorem
  covers PUTs that keep the path's id, DELETEs and \<open>GET /\<close>; creates
  (which draw from the shared sequence and append rows) and \<open>GET /todos/\<close>
  (which reads every row) do not commute with the other requests, and the
  races above show what their interleavings do instead.

  Nothing else of \<open>main.py\<close> is left out: every line that is not an
  import or a comment is translated by a definition of the development.
\<close>

subsection \<open>The spec's contract on the table\<close>

text \<open>The abstract contract of the spec (sections 4 and 7): a request leaves
  the table unchanged, or creates a row under a fresh id, overwrites the
  content of an existing id, or removes an existing id.\<close>

inductive spec_effect :: "request \<Rightarrow> table_map \<Rightarrow> table_map \<Rightarrow> bool" where
  unchanged: "spec_effect r m m"
| create: "i \<notin> dom m \<Longrightarrow> spec_effect (Post_Todos t) m (m(i \<mapsto> content t))"
| update: "tid \<in> dom m \<Longrightarrow> spec_effect (Put_Todo tid t) m (m(tid \<mapsto> content t))"
| delete: "tid \<in> dom m \<Longrightarrow> spec_effect (Delete_Todo tid) m (m(tid := None))"

fun keeps_id :: "request \<Rightarrow> bool" where
  "keeps_id (Put_Todo tid t) = (todo_id t = None \<or> todo_id t = Some tid)"
| "keeps_id _ = True"

text \<open>The spec's contract on the answers as well (sections 4, 6 and 7):
  the answer of each operation together with its effect on the table. An
  update overwrites every field of the row, \<open>id\<close> included (section 9).
  Every other failure is the framework's default error, which the contract
  leaves open.\<close>

definition not_found :: http_response where
  "not_found = \<lparr>status = 404, body = JObj [(''detail'', JStr ''Todo not found'')]\<rparr>"

inductive spec_op :: "request \<Rightarrow> table_map \<Rightarrow> http_response \<Rightarrow> table_map \<Rightarrow> bool" where
  root: "spec_op Get_Root m \<lparr>status = 200, body = JObj [(''Hello'', JStr ''Backend Developer'')]\<rparr> m"
| create: "i \<notin> dom m \<Longrightarrow>
    spec_op (Post_Todos t) m \<lparr>status = 200, body = todo_json \<lparr>todo_id = Some i, content = content t\<rparr>\<rparr>
      (m(i \<mapsto> content t))"
| list: "distinct (map fst rs) \<Longrightarrow> map_of rs = m \<Longrightarrow>
    spec_op Get_Todos m \<lparr>status = 200, body = JArr (map (\<lambda>r. todo_json (row_todo r)) rs)\<rparr> m"
| update: "tid \<in> dom m \<Longrightarrow> todo_id u = Some j \<Longrightarrow> j = tid \<or> j \<notin> dom m \<Longrightarrow>
    spec_op (Put_Todo tid u) m \<lparr>status = 200, body = todo_json u\<rparr> ((m(tid := None))(j \<mapsto> content u))"
| delete: "tid \<in> dom m \<Longrightarrow>
    spec_op (Delete_Todo tid) m \<lparr>status = 200, body = JObj [(''message'', JStr ''Todo deleted'')]\<rparr>
      (m(tid := None))"
| update_missing: "tid \<notin> dom m \<Longrightarrow> spec_op (Put_Todo tid u) m not_found m"
| delete_missing: "tid \<notin> dom m \<Longrightarrow> spec_op (Delete_Todo tid) m not_found m"

lemma refine_create:
  assumes "table d = Some rs"
  shows "\<exists>m'. tmap (snd (serve (Post_Todos t) d)) = Some m' \<and> spec_effect (Post_Todos t) (map_of rs) m'"
proof (cases "pg_insert (todo_id t) (content t) d")
  case (Pair res d')
  show ?thesis
  proof (cases res)
    case (Inl e)
    with Pair have "table d' = table d" by (blast dest: pg_insert_Inl_table)
    with Pair Inl assms show ?thesis
      by (auto simp: serve_create tmap_def intro: spec_effect.unchanged)
  next
    case (Inr i)
    with Pair assms have "i \<notin> dom (map_of rs) \<and> tmap d' = Some ((map_of rs)(i \<mapsto> content t))"
      by (blast dest: pg_insert_tmap)
    with Pair Inr show ?thesis by (auto simp: serve_create intro: spec_effect.create)
  qed
qed

lemma refine_update:
  assumes "wf_db d" and "table d = Some rs" and "keeps_id (Put_Todo tid u)"
  shows "\<exists>m'. tmap (snd (serve (Put_Todo tid u) d)) = Some m' \<and> spec_effect (Put_Todo tid u) (map_of rs) m'"
proof -
  have same: "\<exists>m'. tmap d = Some m' \<and> spec_effect (Put_Todo tid u) (map_of rs) m'"
    using assms(2) by (auto simp: tmap_def intro: spec_effect.unchanged)
  show ?thesis
  proof (cases "pg_select_id tid d")
    case (Inl e)
    with assms same show ?thesis by (simp add: serve_snd dispatch_update)
  next
    case (Inr ro)
    show ?thesis
    proof (cases ro)
      case None
      with Inr assms same show ?thesis by (simp add: serve_snd dispatch_update)
    next
      case (Some r)
      with Inr have fst_r: "fst r = tid" by (blast dest: select_Some_fst)
      show ?thesis
      proof (cases "pg_update tid (todo_id u) (content u) d")
        case (Inl e)
        with Inr Some fst_r assms same show ?thesis by (simp add: serve_snd dispatch_update)
      next
        case (Inr jd)
        obtain j d' where jd: "jd = (j, d')" by (cases jd)
        from Inr jd have upd: "pg_update tid (todo_id u) (content u) d = Inr (j, d')" by simp
        then have "todo_id u = Some j" by (blast dest: pg_update_Inr)
        with assms(3) have "j = tid" by simp
        with pg_update_tmap [OF assms(1) upd assms(2)]
        have "tid \<in> dom (map_of rs) \<and> tmap d' = Some ((map_of rs)(tid \<mapsto> content u))"
          by simp
        with upd \<open>pg_select_id tid d = Inr ro\<close> Some fst_r assms(1) show ?thesis
          by (auto simp: serve_snd dispatch_update intro: spec_effect.update)
      qed
    qed
  qed
qed

lemma refine_delete:
  assumes "table d = Some rs"
  shows "\<exists>m'. tmap (snd (serve (Delete_Todo tid) d)) = Some m' \<and> spec_effect (Delete_Todo tid) (map_of rs) m'"
proof (cases "tid \<in> fst ` set rs")
  case True
  then obtain c0 where "map_of rs tid = Some c0" using id_in_table [OF True] by blast
  moreover have "snd (serve (Delete_Todo tid) d) = d\<lparr>table := Some (filter (\<lambda>r. fst r \<noteq> tid) rs)\<rparr>"
    using serve_delete_found [OF assms True] by simp
  ultimately show ?thesis
    by (auto simp: tmap_def map_of_filter_id intro: spec_effect.delete)
next
  case False
  then have "snd (serve (Delete_Todo tid) d) = d"
    using serve_delete_absent [OF assms False] by simp
  with assms show ?thesis by (auto simp: tmap_def intro: spec_effect.unchanged)
qed

text \<open>C2: refinement. On a well-formed database with the table in place,
  every request changes the map view of the table as one of the spec's
  abstract operations does (or leaves it unchanged), provided a PUT body
  does not name an id other than the path's.\<close>

theorem serve_refines_spec:
  assumes "wf_db d" and "table d = Some rs" and "keeps_id r"
  shows "\<exists>m'. tmap (snd (serve r d)) = Some m' \<and> spec_effect r (map_of rs) m'"
proof (cases r)
  case (Post_Todos t)
  with assms(2) show ?thesis by (simp add: refine_create)
next
  case (Put_Todo tid u)
  with assms show ?thesis by (simp add: refine_update)
next
  case (Delete_Todo tid)
  with assms(2) show ?thesis by (simp add: refine_delete)
qed (use assms(2) in \<open>auto simp: serve_root serve_list_rows tmap_def intro: spec_effect.unchanged\<close>)

theorem serve_refines_spec_witness:
  "\<exists>m'. tmap (snd (serve (Post_Todos \<lparr>todo_id = None, content = ''buy milk''\<rparr>) \<lparr>table = Some [], next_id = 1\<rparr>)) = Some m' \<and>
     spec_effect (Post_Todos \<lparr>todo_id = None, content = ''buy milk''\<rparr>) (map_of []) m'"
  by (rule serve_refines_spec) (simp_all add: wf_db_def int4_max_def)

subsection \<open>The spec's contract on the answers\<close>

lemma answer_create:
  assumes "table d = Some rs" and "serve (Post_Todos t) d = (resp, d')" and "status resp \<noteq> 500"
  shows "\<exists>m'. tmap d' = Some m' \<and> spec_op (Post_Todos t) (map_of rs) resp m'"
proof (cases "pg_insert (todo_id t) (content t) d")
  case (Pair res e)
  then obtain i where i: "res = Inr i"
    using assms(2,3) by (cases res) (auto simp: serve_create internal_error_def)
  with Pair assms(1) have "i \<notin> dom (map_of rs) \<and> tmap e = Some ((map_of rs)(i \<mapsto> content t))"
    by (blast dest: pg_insert_tmap)
  with Pair i assms(2) show ?thesis by (auto simp: serve_create intro: spec_op.create)
qed

lemma answer_update:
  assumes "wf_db d" and "table d = Some rs" and "serve (Put_Todo tid u) d = (resp, d')"
    and "status resp \<noteq> 500"
  shows "\<exists>m'. tmap d' = Some m' \<and> spec_op (Put_Todo tid u) (map_of rs) resp m'"
proof (cases "map_of rs tid")
  case None
  then have "pg_select_id tid d = Inr None" using assms(2) by (simp add: pg_select_id_map)
  with assms(1-3) None show ?thesis
    by (auto simp: serve_def dispatch_update not_found_def tmap_def intro: spec_op.update_missing [unfolded not_found_def])
next
  case (Some c0)
  have sel: "pg_select_id tid d = Inr (Some (tid, c0))" using assms(2) Some by (rule select_found)
  show ?thesis
  proof (cases "pg_update tid (todo_id u) (content u) d")
    case (Inl e)
    with assms sel show ?thesis by (auto simp: serve_def dispatch_update internal_error_def)
  next
    case (Inr jd)
    obtain j e where jd: "jd = (j, e)" by (cases jd)
    with Inr have upd: "pg_update tid (todo_id u) (content u) d = Inr (j, e)" by simp
    then have j: "todo_id u = Some j" and moved: "j = tid \<or> j \<notin> set (row_ids rs)"
      using pg_update_Inr [OF upd] assms(2) by auto
    have tm: "tmap e = Some (((map_of rs)(tid := None))(j \<mapsto> content u))"
      using pg_update_tmap [OF assms(1) upd assms(2)] by blast
    have resp: "resp = \<lparr>status = 200, body = todo_json u\<rparr>" and "d' = e"
      using assms(1,3) sel upd j by (auto simp: serve_def dispatch_update todo_json_def)
    moreover have "j = tid \<or> j \<notin> dom (map_of rs)"
      using moved by (auto simp: dom_map_of_conv_image_fst)
    ultimately show ?thesis using tm Some j by (auto intro: spec_op.update)
  qed
qed

lemma answer_delete:
  assumes "table d = Some rs" and "serve (Delete_Todo tid) d = (resp, d')" and "status resp \<noteq> 500"
  shows "\<exists>m'. tmap d' = Some m' \<and> spec_op (Delete_Todo tid) (map_of rs) resp m'"
proof (cases "tid \<in> fst ` set rs")
  case True
  with assms show ?thesis by (auto simp: serve_delete_found internal_error_def)
next
  case False
  then have "map_of rs tid = None" by (simp add: map_of_eq_None_iff)
  with False assms show ?thesis
    by (auto simp: serve_delete_absent not_found_def tmap_def intro: spec_op.delete_missing [unfolded not_found_def])
qed

text \<open>C12: every answer the service gives other than the framework's
  default error (500) is one the spec's contract allows for that request,
  and the table changes as the contract says: 200 with the created record
  under a fresh id, 200 with every row, 200 with the updated record, 404
  with \<open>Todo not found\<close> and no change for a missing id, 200 for the root
  route. A DELETE of an existing row never answers 200 (C5).\<close>

theorem serve_answers_spec:
  assumes "wf_db d" and "table d = Some rs" and "serve r d = (resp, d')" and "status resp \<noteq> 500"
  shows "\<exists>m'. tmap d' = Some m' \<and> spec_op r (map_of rs) resp m'"
proof (cases r)
  case Get_Root
  with assms(2,3) show ?thesis by (auto simp: serve_root tmap_def intro: spec_op.root)
next
  case (Post_Todos t)
  with assms(2-4) show ?thesis by (simp add: answer_create)
next
  case Get_Todos
  have "distinct (map fst rs)" using assms(1,2) by (simp add: wf_db_Some)
  then have "spec_op Get_Todos (map_of rs)
      \<lparr>status = 200, body = JArr (map (\<lambda>r. JObj [(''id'', JInt (fst r)), (''content'', JStr (snd r))]) rs)\<rparr>
      (map_of rs)"
    using spec_op.list [of rs] by (simp add: todo_json_def row_todo_def)
  with Get_Todos assms(2,3) show ?thesis by (auto simp: serve_list_rows tmap_def)
next
  case (Put_Todo tid u)
  with assms show ?thesis by (simp add: answer_update)
next
  case (Delete_Todo tid)
  with assms(2-4) show ?thesis by (simp add: answer_delete)
qed
theorem serve_answers_spec_witness:
  "wf_db \<lparr>table = Some [(1, ''a'')], next_id = 2\<rparr> \<and>
   serve (Put_Todo 1 \<lparr>todo_id = Some 1, content = ''b''\<rparr>) \<lparr>table = Some [(1, ''a'')], next_id = 2\<rparr> =
     (\<lparr>status = 200, body = JObj [(''id'', JInt 1), (''content'', JStr ''b'')]\<rparr>,
      \<lparr>table = Some [(1, ''b'')], next_id = 2\<rparr>) \<and>
   (\<exists>m'. tmap \<lparr>table = Some [(1, ''b'')], next_id = 2\<rparr> = Some m' \<and>
     spec_op (Put_Todo 1 \<lparr>todo_id = Some 1, content = ''b''\<rparr>) (map_of [(1, ''a'')])
       \<lparr>status = 200, body = JObj [(''id'', JInt 1), (''content'', JStr ''b'')]\<rparr> m')"
proof -
  let ?d = "\<lparr>table = Some [(1::int, ''a'')], next_id = 2\<rparr>"
  have wf: "wf_db ?d" by (simp add: wf_db_def int4_max_def in_int4_def int4_min_def text_ok_def)
  have sv: "serve (Put_Todo 1 \<lparr>todo_id = Some 1, content = ''b''\<rparr>) ?d =
     (\<lparr>status = 200, body = JObj [(''id'', JInt 1), (''content'', JStr ''b'')]\<rparr>,
      \<lparr>table = Some [(1, ''b'')], next_id = 2\<rparr>)"
    using serve_update_in_place [OF wf, of "[(1, ''a'')]" 1 "''a''" "''b''"] by (simp add: text_ok_def)
  have "status \<lparr>status = 200, body = JObj [(''id'', JInt 1), (''content'', JStr ''b'')]\<rparr> \<noteq> 500" by simp
  from serve_answers_spec [OF wf _ sv this] wf sv show ?thesis by simp
qed

subsection \<open>Request sequences\<close>

text \<open>C9: on any well-formed table whose next sequence value is free, a
  create whose body names that value as its \<open>id\<close> stores the row under it
  without advancing the sequence, so the next create without \<open>id\<close> draws the
  same value and fails with 500. The failed insert still consumed the value:
  the sequence has moved on and the table holds only the first row. The spec
  says a body's \<open>id\<close> is ignored on create.\<close>

theorem explicit_id_blocks_sequence:
  assumes "wf_db d" and "table d = Some rs" and "next_id d \<notin> fst ` set rs"
    and "next_id d \<le> int4_max" and "text_ok c1" and "text_ok c2"
  shows "run_requests [Post_Todos \<lparr>todo_id = Some (next_id d), content = c1\<rparr>,
                       Post_Todos \<lparr>todo_id = None, content = c2\<rparr>] d =
     ([\<lparr>status = 200, body = JObj [(''id'', JInt (next_id d)), (''content'', JStr c1)]\<rparr>, internal_error],
      \<lparr>table = Some (rs @ [(next_id d, c1)]), next_id = next_id d + 1\<rparr>)"
proof -
  have "in_int4 (next_id d)" using assms(1,2,4) by (simp add: wf_db_Some in_int4_def int4_min_def)
  with assms show ?thesis
    by (simp add: serve_create pg_insert_def Let_def todo_json_def)
qed

theorem explicit_id_blocks_sequence_witness:
  "run_requests [Post_Todos \<lparr>todo_id = Some 1, content = ''a''\<rparr>,
                 Post_Todos \<lparr>todo_id = None, content = ''b''\<rparr>] \<lparr>table = Some [], next_id = 1\<rparr> =
     ([\<lparr>status = 200, body = JObj [(''id'', JInt 1), (''content'', JStr ''a'')]\<rparr>, internal_error],
      \<lparr>table = Some [(1, ''a'')], next_id = 2\<rparr>)"
  using explicit_id_blocks_sequence [of "\<lparr>table = Some [], next_id = 1\<rparr>" "[]" "''a''" "''b''"]
  by (simp add: wf_db_def int4_max_def text_ok_def)

text \<open>C14: the spec's round trip. On a well-formed table whose next sequence
  value is free: create \<open>buy milk\<close>, update it to \<open>buy eggs\<close> (body with its
  id), list, delete, list. The creates and updates answer 200 with the row,
  the first list shows it, the delete answers 500 (finding C5) but removes
  it, and the last list is the original table; only the sequence moved.\<close>

theorem crud_round_trip:
  assumes "wf_db d" and "table d = Some rs" and "next_id d \<le> int4_max"
    and "next_id d \<notin> fst ` set rs"
  shows "run_requests
     [Post_Todos \<lparr>todo_id = None, content = ''buy milk''\<rparr>,
      Put_Todo (next_id d) \<lparr>todo_id = Some (next_id d), content = ''buy eggs''\<rparr>,
      Get_Todos, Delete_Todo (next_id d), Get_Todos] d =
   ([\<lparr>status = 200, body = JObj [(''id'', JInt (next_id d)), (''content'', JStr ''buy milk'')]\<rparr>,
     \<lparr>status = 200, body = JObj [(''id'', JInt (next_id d)), (''content'', JStr ''buy eggs'')]\<rparr>,
     \<lparr>status = 200, body = JArr (map (\<lambda>r. JObj [(''id'', JInt (fst r)), (''content'', JStr (snd r))])
                                  (rs @ [(next_id d, ''buy eggs'')]))\<rparr>,
     internal_error,
     \<lparr>status = 200, body = JArr (map (\<lambda>r. JObj [(''id'', JInt (fst r)), (''content'', JStr (snd r))]) rs)\<rparr>],
    d\<lparr>table := Some rs, next_id := next_id d + 1\<rparr>)"
proof -
  let ?n = "next_id d"
  let ?d1 = "d\<lparr>table := Some (rs @ [(?n, ''buy milk'')]), next_id := ?n + 1\<rparr>"
  let ?d2 = "d\<lparr>table := Some (rs @ [(?n, ''buy eggs'')]), next_id := ?n + 1\<rparr>"
  let ?d3 = "d\<lparr>table := Some rs, next_id := ?n + 1\<rparr>"
  have s1: "serve (Post_Todos \<lparr>todo_id = None, content = ''buy milk''\<rparr>) d =
    (\<lparr>status = 200, body = JObj [(''id'', JInt ?n), (''content'', JStr ''buy milk'')]\<rparr>, ?d1)"
    using assms(2-4) by (rule serve_create_next_id) (simp add: text_ok_def)
  have wf1: "wf_db ?d1" using serve_wf [OF assms(1), of "Post_Todos \<lparr>todo_id = None, content = ''buy milk''\<rparr>"] s1
    by simp
  have m1: "map_of (rs @ [(?n, ''buy milk'')]) ?n = Some ''buy milk''"
    using assms(4) by (simp del: map_of_append add: map_of_snoc_new)
  have "serve (Put_Todo ?n \<lparr>todo_id = Some ?n, content = ''buy eggs''\<rparr>) ?d1 =
    (\<lparr>status = 200, body = JObj [(''id'', JInt ?n), (''content'', JStr ''buy eggs'')]\<rparr>,
     ?d1\<lparr>table := Some (map (\<lambda>r. if fst r = ?n then (?n, ''buy eggs'') else r) (rs @ [(?n, ''buy milk'')]))\<rparr>)"
    by (rule serve_update_in_place [OF wf1 _ m1]) (simp_all add: text_ok_def)
  also have "map (\<lambda>r. if fst r = ?n then (?n, ''buy eggs'') else r) (rs @ [(?n, ''buy milk'')]) =
      rs @ [(?n, ''buy eggs'')]"
    using assms(4) by (simp add: rewrite_row_absent)
  finally have s2: "serve (Put_Todo ?n \<lparr>todo_id = Some ?n, content = ''buy eggs''\<rparr>) ?d1 =
    (\<lparr>status = 200, body = JObj [(''id'', JInt ?n), (''content'', JStr ''buy eggs'')]\<rparr>, ?d2)"
    by simp
  have s3: "serve Get_Todos ?d2 =
    (\<lparr>status = 200, body = JArr (map (\<lambda>r. JObj [(''id'', JInt (fst r)), (''content'', JStr (snd r))])
                                  (rs @ [(?n, ''buy eggs'')]))\<rparr>, ?d2)"
    by (rule serve_list_rows) simp
  have "serve (Delete_Todo ?n) ?d2 =
    (internal_error, ?d2\<lparr>table := Some (filter (\<lambda>r. fst r \<noteq> ?n) (rs @ [(?n, ''buy eggs'')]))\<rparr>)"
    by (rule serve_delete_found) simp_all
  also have "filter (\<lambda>r. fst r \<noteq> ?n) (rs @ [(?n, ''buy eggs'')]) = rs"
    using assms(4) by (simp add: filter_row_absent)
  finally have s4: "serve (Delete_Todo ?n) ?d2 = (internal_error, ?d3)" by simp
  have s5: "serve Get_Todos ?d3 =
    (\<lparr>status = 200, body = JArr (map (\<lambda>r. JObj [(''id'', JInt (fst r)), (''content'', JStr (snd r))]) rs)\<rparr>, ?d3)"
    by (rule serve_list_rows) simp
  show ?thesis by (simp add: s1 s2 s3 s4 s5)
qed

theorem crud_round_trip_witness:
  "run_requests
     [Post_Todos \<lparr>todo_id = None, content = ''buy milk''\<rparr>,
      Put_Todo 1 \<lparr>todo_id = Some 1, content = ''buy eggs''\<rparr>,
      Get_Todos, Delete_Todo 1, Get_Todos] \<lparr>table = Some [], next_id = 1\<rparr> =
   ([\<lparr>status = 200, body = JObj [(''id'', JInt 1), (''content'', JStr ''buy milk'')]\<rparr>,
     \<lparr>status = 200, body = JObj [(''id'', JInt 1), (''content'', JStr ''buy eggs'')]\<rparr>,
     \<lparr>status = 200, body = JArr [JObj [(''id'', JInt 1), (''content'', JStr ''buy eggs'')]]\<rparr>,
     internal_error,
     \<lparr>status = 200, body = JArr []\<rparr>],
    \<lparr>table = Some [], next_id = 2\<rparr>)"
  using crud_round_trip [of "\<lparr>table = Some [], next_id = 1\<rparr>" "[]"]
  by (simp add: wf_db_def int4_max_def)

end
